theory Spec2Isabelle
  imports Main "HOL-Library.Char_ord" "HOL-Library.List_Lexorder" "HOL-Library.AList"
begin

section \<open>The transactional outbox of mercuria: store, producer and relay\<close>

text \<open>
  The package \<^verbatim>\<open>outbox\<close> keeps events in the table \<^verbatim>\<open>outbox_events\<close> and a background
  publisher hands them to Kafka. The table is a list of rows in the order a sequential scan
  meets them; Go's \<^verbatim>\<open>int\<close> and the column \<^verbatim>\<open>attempts\<close> are \<open>int\<close> (the publisher only
  increments counters it fetched below 5, and an update that would overflow the column is
  one the server answers with an error); a timestamp is an \<open>int\<close> (microseconds); byte
  slices and strings are \<open>string\<close>. Everything the code obtains from outside (the JSON library, the
  answers of the database driver, the answers of the Kafka writer, the server clock) is an
  argument of the function that asks for it, so every result below holds for every behaviour
  of these collaborators.
\<close>

subsection \<open>Data\<close>

type_synonym bytes = string
type_synonym timestamp = int

definition StatusPending :: string where "StatusPending = ''pending''"
definition StatusPublished :: string where "StatusPublished = ''published''"
definition StatusFailed :: string where "StatusFailed = ''failed''"

text \<open>A row of \<^verbatim>\<open>outbox_events\<close> (migration 001); \<^verbatim>\<open>id\<close> is the primary key.\<close>

record outbox_row =
  row_id :: string
  row_aggregate_id :: string
  row_event_type :: string
  row_topic :: string
  row_payload :: bytes
  row_status :: string
  row_attempts :: int
  row_last_error :: "string option"
  row_created_at :: timestamp
  row_published_at :: "timestamp option"

text \<open>The Go struct \<^verbatim>\<open>OutboxEvent\<close>; \<open>'p\<close> is the decoded payload, \<^verbatim>\<open>map[string]interface{}\<close>.\<close>

record 'p OutboxEvent =
  ID :: string
  AggregateID :: string
  EventType :: string
  Topic :: string
  Payload :: 'p
  Status :: string
  Attempts :: int
  LastError :: "string option"
  CreatedAt :: timestamp
  PublishedAt :: "timestamp option"

text \<open>\<^verbatim>\<open>kafka.Message{Topic, Key, Value}\<close> as the producer fills it.\<close>

record Message =
  Message_Topic :: string
  Message_Key :: bytes
  Message_Value :: bytes

text \<open>
  \<^verbatim>\<open>encoding/json\<close>: \<^verbatim>\<open>json.Marshal\<close> and \<^verbatim>\<open>json.Unmarshal\<close> into a fresh payload map,
  each returning its error message on the left.
\<close>

record 'p encoding_json =
  json_Marshal :: "'p \<Rightarrow> string + bytes"
  json_Unmarshal :: "bytes \<Rightarrow> string + 'p"

text \<open>
  One constructor for each \<^verbatim>\<open>fmt.Errorf\<close> of the two packages; the argument is the message of
  the wrapped error (or the event id). \<open>Error\<close> is Go's \<^verbatim>\<open>err.Error()\<close>.
\<close>

datatype error =
    MarshalPayloadError string
  | SaveEventError string
  | GetPendingError string
  | ScanEventError string
  | MarkPublishedError string
  | EventNotFound string
  | MarkFailedError string
  | IncrementAttemptError string
  | MarshalEventError string
  | PublishEventError string
  | PublishPendingError error

fun Error :: "error \<Rightarrow> string" where
  "Error (MarshalPayloadError e) = ''failed to marshal payload: '' @ e"
| "Error (SaveEventError e) = ''failed to save outbox event: '' @ e"
| "Error (GetPendingError e) = ''failed to get pending events: '' @ e"
| "Error (ScanEventError e) = ''failed to scan event: '' @ e"
| "Error (MarkPublishedError e) = ''failed to mark event as published: '' @ e"
| "Error (EventNotFound i) = ''event not found: '' @ i"
| "Error (MarkFailedError e) = ''failed to mark event as failed: '' @ e"
| "Error (IncrementAttemptError e) = ''failed to increment attempt: '' @ e"
| "Error (MarshalEventError e) = ''failed to marshal event: '' @ e"
| "Error (PublishEventError e) = ''failed to publish event: '' @ e"
| "Error (PublishPendingError e) = ''failed to get pending events: '' @ Error e"

subsection \<open>Repository\<close>

text \<open>
  \<^verbatim>\<open>UPDATE outbox_events SET ... WHERE id = $n\<close>: the assignment is applied to every row
  with that id, and \<^verbatim>\<open>RowsAffected\<close> counts them.
\<close>

definition update_where_id :: "string \<Rightarrow> (outbox_row \<Rightarrow> outbox_row) \<Rightarrow> outbox_row list \<Rightarrow> outbox_row list" where
  "update_where_id eventID f tbl = map (\<lambda>r. if row_id r = eventID then f r else r) tbl"

definition RowsAffected :: "string \<Rightarrow> outbox_row list \<Rightarrow> nat" where
  "RowsAffected eventID tbl = length (filter (\<lambda>r. row_id r = eventID) tbl)"

text \<open>
  \<^verbatim>\<open>SaveEvent\<close>. \<open>reply\<close> is the server's answer to the \<^verbatim>\<open>INSERT ... RETURNING id, created_at\<close>:
  a driver error, or the id from \<^verbatim>\<open>gen_random_uuid()\<close> with \<^verbatim>\<open>CURRENT_TIMESTAMP\<close>. The primary
  key refuses an id that is already in the table. The result is the returned error, the
  table as the transaction sees it afterwards, and the caller's event, which the function
  writes through its pointer.
\<close>

definition SaveEvent ::
  "'p encoding_json \<Rightarrow> (string + string \<times> timestamp) \<Rightarrow> outbox_row list \<Rightarrow> 'p OutboxEvent
    \<Rightarrow> error option \<times> outbox_row list \<times> 'p OutboxEvent" where
  "SaveEvent J reply tx event =
     (case json_Marshal J (Payload event) of
        Inl e \<Rightarrow> (Some (MarshalPayloadError e), tx, event)
      | Inr payloadJSON \<Rightarrow>
          (let event1 = event\<lparr>Status := StatusPending, Attempts := 0\<rparr> in
           case reply of
             Inl e \<Rightarrow> (Some (SaveEventError e), tx, event1)
           | Inr (new_id, now) \<Rightarrow>
               if new_id \<in> set (map row_id tx)
               then (Some (SaveEventError ''duplicate key value violates unique constraint''), tx, event1)
               else (None,
                     tx @ [\<lparr>row_id = new_id, row_aggregate_id = AggregateID event1,
                            row_event_type = EventType event1, row_topic = Topic event1,
                            row_payload = payloadJSON, row_status = Status event1,
                            row_attempts = Attempts event1, row_last_error = None,
                            row_created_at = now, row_published_at = None\<rparr>],
                     event1\<lparr>ID := new_id, CreatedAt := now\<rparr>)))"

text \<open>
  The query of \<^verbatim>\<open>GetPendingEvents\<close>:
  \<^verbatim>\<open>WHERE status = 'pending' AND attempts < 5 ORDER BY created_at ASC LIMIT $2\<close>.
  SQL leaves the order of rows with the same \<^verbatim>\<open>created_at\<close> open; here they come in the
  order of the table, which is any list.
\<close>

definition select_pending :: "outbox_row list \<Rightarrow> int \<Rightarrow> outbox_row list" where
  "select_pending tbl limit =
     take (nat limit)
       (sort_key row_created_at
          (filter (\<lambda>r. row_status r = StatusPending \<and> row_attempts r < 5) tbl))"

definition scan_event :: "outbox_row \<Rightarrow> 'p \<Rightarrow> 'p OutboxEvent" where
  "scan_event r p =
     \<lparr>ID = row_id r, AggregateID = row_aggregate_id r, EventType = row_event_type r,
      Topic = row_topic r, Payload = p, Status = row_status r, Attempts = row_attempts r,
      LastError = row_last_error r, CreatedAt = row_created_at r,
      PublishedAt = row_published_at r\<rparr>"

text \<open>
  The body of the loop \<^verbatim>\<open>for rows.Next()\<close>, over the rows delivered: \<open>scan\<close> tells for which
  rows \<^verbatim>\<open>rows.Scan\<close> fails (the whole call then returns the error and no events); a payload
  that does not decode is logged and the row is passed over.
\<close>

fun scan_rows ::
  "'p encoding_json \<Rightarrow> (outbox_row \<Rightarrow> string option) \<Rightarrow> outbox_row list \<Rightarrow> 'p OutboxEvent list
    \<Rightarrow> error + 'p OutboxEvent list" where
  "scan_rows J scan [] events = Inr events"
| "scan_rows J scan (r # rows) events =
     (case scan r of
        Some e \<Rightarrow> Inl (ScanEventError e)
      | None \<Rightarrow>
          (case json_Unmarshal J (row_payload r) of
             Inl e \<Rightarrow> scan_rows J scan rows events
           | Inr p \<Rightarrow> scan_rows J scan rows (events @ [scan_event r p])))"

text \<open>
  The rows \<^verbatim>\<open>rows.Next()\<close> delivers. The driver streams the result: \<open>stop\<close> is \<open>Some n\<close> when
  \<^verbatim>\<open>rows.Next()\<close> returns false after \<open>n\<close> rows because of a driver error or a cancelled
  context, and \<open>None\<close> when the result arrives whole. \<^verbatim>\<open>rows.Err()\<close> would tell the two ends
  of the loop apart; the source does not read it, so both end the loop in the same way.
\<close>

definition rows_Next :: "nat option \<Rightarrow> outbox_row list \<Rightarrow> outbox_row list" where
  "rows_Next stop rows = (case stop of None \<Rightarrow> rows | Some n \<Rightarrow> take n rows)"

text \<open>
  \<open>query\<close> is the error of \<^verbatim>\<open>QueryContext\<close>, if any. PostgreSQL refuses a negative
  \<^verbatim>\<open>LIMIT\<close>, which the driver reports as such an error. After the loop the function
  returns the events it has, with no error.
\<close>

definition GetPendingEvents ::
  "'p encoding_json \<Rightarrow> string option \<Rightarrow> (outbox_row \<Rightarrow> string option) \<Rightarrow> nat option
    \<Rightarrow> outbox_row list \<Rightarrow> int \<Rightarrow> error + 'p OutboxEvent list" where
  "GetPendingEvents J query scan stop tbl limit =
     (case query of
        Some e \<Rightarrow> Inl (GetPendingError e)
      | None \<Rightarrow>
          if limit < 0 then Inl (GetPendingError ''LIMIT must not be negative'')
          else scan_rows J scan (rows_Next stop (select_pending tbl limit)) [])"

text \<open>
  The three updates. \<open>exec\<close> is the error of \<^verbatim>\<open>ExecContext\<close>, if any; a statement that
  failed changed nothing. Only \<^verbatim>\<open>MarkAsPublished\<close> looks at \<^verbatim>\<open>RowsAffected\<close>.
\<close>

definition MarkAsPublished ::
  "string option \<Rightarrow> timestamp \<Rightarrow> outbox_row list \<Rightarrow> string \<Rightarrow> error option \<times> outbox_row list" where
  "MarkAsPublished exec now tbl eventID =
     (case exec of
        Some e \<Rightarrow> (Some (MarkPublishedError e), tbl)
      | None \<Rightarrow>
          (let tbl' = update_where_id eventID
                        (\<lambda>r. r\<lparr>row_status := StatusPublished, row_published_at := Some now\<rparr>) tbl
           in if RowsAffected eventID tbl = 0 then (Some (EventNotFound eventID), tbl')
              else (None, tbl')))"

definition MarkAsFailed ::
  "string option \<Rightarrow> outbox_row list \<Rightarrow> string \<Rightarrow> string \<Rightarrow> error option \<times> outbox_row list" where
  "MarkAsFailed exec tbl eventID errorMsg =
     (case exec of
        Some e \<Rightarrow> (Some (MarkFailedError e), tbl)
      | None \<Rightarrow>
          (None, update_where_id eventID
                   (\<lambda>r. r\<lparr>row_status := StatusFailed, row_attempts := row_attempts r + 1,
                           row_last_error := Some errorMsg\<rparr>) tbl))"

definition IncrementAttempt ::
  "string option \<Rightarrow> outbox_row list \<Rightarrow> string \<Rightarrow> string \<Rightarrow> error option \<times> outbox_row list" where
  "IncrementAttempt exec tbl eventID errorMsg =
     (case exec of
        Some e \<Rightarrow> (Some (IncrementAttemptError e), tbl)
      | None \<Rightarrow>
          (None, update_where_id eventID
                   (\<lambda>r. r\<lparr>row_attempts := row_attempts r + 1, row_last_error := Some errorMsg\<rparr>)
                   tbl))"

subsection \<open>Producer\<close>

text \<open>
  \<^verbatim>\<open>Producer.PublishEvent\<close>: the event is marshalled again and written as the value of one
  message. \<open>write\<close> is the error of \<^verbatim>\<open>WriteMessages\<close>, if any; on the right is the message
  the broker acknowledged.
\<close>

definition PublishEvent ::
  "'p encoding_json \<Rightarrow> string option \<Rightarrow> string \<Rightarrow> string \<Rightarrow> 'p \<Rightarrow> error + Message" where
  "PublishEvent J write topic key event =
     (case json_Marshal J event of
        Inl e \<Rightarrow> Inl (MarshalEventError e)
      | Inr eventBytes \<Rightarrow>
          (let msg = \<lparr>Message_Topic = topic, Message_Key = key, Message_Value = eventBytes\<rparr>
           in case write of
                Some e \<Rightarrow> Inl (PublishEventError e)
              | None \<Rightarrow> Inr msg))"

subsection \<open>Publisher\<close>

text \<open>
  The state the publisher works on: the table and the messages the broker has acknowledged,
  oldest first.
\<close>

record world =
  db :: "outbox_row list"
  broker :: "Message list"

text \<open>
  What the outside answers during one call of \<^verbatim>\<open>publishPendingEvents\<close>: the error of the
  query, the rows that fail to scan, the number of rows after which the result stream
  breaks (if it does), and for the event at position \<open>i\<close> of the batch the
  error of its \<^verbatim>\<open>WriteMessages\<close>, the error of its one \<^verbatim>\<open>UPDATE\<close> and the server's
  \<^verbatim>\<open>CURRENT_TIMESTAMP\<close>.
\<close>

record environment =
  query_error :: "string option"
  scan_error :: "outbox_row \<Rightarrow> string option"
  next_error :: "nat option"
  write_error :: "nat \<Rightarrow> string option"
  exec_error :: "nat \<Rightarrow> string option"
  current_timestamp :: "nat \<Rightarrow> timestamp"

text \<open>The body of the loop over the batch; the errors of the three updates are dropped or logged.\<close>

definition publish_event ::
  "'p encoding_json \<Rightarrow> environment \<Rightarrow> nat \<Rightarrow> 'p OutboxEvent \<Rightarrow> world \<Rightarrow> world" where
  "publish_event J env i event w =
     (case PublishEvent J (write_error env i) (Topic event) (AggregateID event) (Payload event) of
        Inl err \<Rightarrow>
          if Attempts event \<ge> 4
          then w\<lparr>db := snd (MarkAsFailed (exec_error env i) (db w) (ID event) (Error err))\<rparr>
          else w\<lparr>db := snd (IncrementAttempt (exec_error env i) (db w) (ID event) (Error err))\<rparr>
      | Inr msg \<Rightarrow>
          w\<lparr>broker := broker w @ [msg],
            db := snd (MarkAsPublished (exec_error env i) (current_timestamp env i) (db w) (ID event))\<rparr>)"

fun publish_loop ::
  "'p encoding_json \<Rightarrow> environment \<Rightarrow> nat \<Rightarrow> 'p OutboxEvent list \<Rightarrow> world \<Rightarrow> world" where
  "publish_loop J env i [] w = w"
| "publish_loop J env i (event # events) w =
     publish_loop J env (Suc i) events (publish_event J env i event w)"

definition publishPendingEvents ::
  "'p encoding_json \<Rightarrow> environment \<Rightarrow> world \<Rightarrow> error option \<times> world" where
  "publishPendingEvents J env w =
     (case GetPendingEvents J (query_error env) (scan_error env) (next_error env) (db w) 100 of
        Inl err \<Rightarrow> (Some (PublishPendingError err), w)
      | Inr events \<Rightarrow>
          if length events = 0 then (None, w)
          else (None, publish_loop J env 0 events w))"

text \<open>
  \<^verbatim>\<open>Publisher.Start\<close>: one call of \<^verbatim>\<open>publishPendingEvents\<close> for each tick, its error logged,
  until the context is done (the end of the list of ticks).
\<close>

fun Start :: "'p encoding_json \<Rightarrow> environment list \<Rightarrow> world \<Rightarrow> world" where
  "Start J [] w = w"
| "Start J (env # ticks) w = Start J ticks (snd (publishPendingEvents J env w))"

text \<open>
  The table over time: producers commit transactions that called \<^verbatim>\<open>SaveEvent\<close> while the
  publisher ticks. Nothing else writes to the table.
\<close>

datatype 'p action =
    Tick environment
  | Enqueue "string + string \<times> timestamp" "'p OutboxEvent"

fun step :: "'p encoding_json \<Rightarrow> 'p action \<Rightarrow> world \<Rightarrow> world" where
  "step J (Tick env) w = snd (publishPendingEvents J env w)"
| "step J (Enqueue reply event) w = w\<lparr>db := fst (snd (SaveEvent J reply (db w) event))\<rparr>"

fun run :: "'p encoding_json \<Rightarrow> 'p action list \<Rightarrow> world \<Rightarrow> world" where
  "run J [] w = w"
| "run J (s # steps) w = run J steps (step J s w)"

text \<open>
  What one iteration of the loop does to a row that has the id of its event, and what the
  whole loop does to a row.
\<close>

definition row_step ::
  "'p encoding_json \<Rightarrow> environment \<Rightarrow> nat \<Rightarrow> 'p OutboxEvent \<Rightarrow> outbox_row \<Rightarrow> outbox_row" where
  "row_step J env i event r =
     (case exec_error env i of
        Some e \<Rightarrow> r
      | None \<Rightarrow>
          (case PublishEvent J (write_error env i) (Topic event) (AggregateID event) (Payload event) of
             Inl err \<Rightarrow>
               if Attempts event \<ge> 4
               then r\<lparr>row_status := StatusFailed, row_attempts := row_attempts r + 1,
                      row_last_error := Some (Error err)\<rparr>
               else r\<lparr>row_attempts := row_attempts r + 1, row_last_error := Some (Error err)\<rparr>
           | Inr msg \<Rightarrow>
               r\<lparr>row_status := StatusPublished,
                 row_published_at := Some (current_timestamp env i)\<rparr>))"

fun row_after ::
  "'p encoding_json \<Rightarrow> environment \<Rightarrow> nat \<Rightarrow> 'p OutboxEvent list \<Rightarrow> outbox_row \<Rightarrow> outbox_row" where
  "row_after J env i [] r = r"
| "row_after J env i (event # events) r =
     row_after J env (Suc i) events (if row_id r = ID event then row_step J env i event r else r)"

subsection \<open>An instance of the JSON library for the examples\<close>

text \<open>
  The theorems take the JSON library as the argument \<open>J\<close>. The examples need one to compute
  with: \<open>go_json\<close> is \<^verbatim>\<open>encoding/json\<close> on a fragment of JSON, the objects whose members are
  integers of magnitude at most \<open>2^53\<close>, strings of printable ASCII without escapes or HTML
  characters, booleans and \<^verbatim>\<open>null\<close>, and the text \<^verbatim>\<open>null\<close> (a nil map). \<open>JNaN\<close> is a
  \<^verbatim>\<open>float64\<close> NaN, which a producer can put into a payload and \<^verbatim>\<open>Marshal\<close> refuses. On this fragment
  \<^verbatim>\<open>Unmarshal\<close> skips white space and keeps the last of two members with one key, and
  \<^verbatim>\<open>Marshal\<close> writes the members in the order of their keys with no white space. Text that
  is not JSON, or not an object, is an error as in Go; JSON outside the fragment is also
  reported as an error here, and no example relies on that.
\<close>

datatype json_value = JNull | JBool bool | JNumber int | JString string | JNaN

datatype payload_map = NilMap | Map "(string \<times> json_value) list"

datatype token = LBrace | RBrace | Colon | Comma | TString string | TValue json_value

datatype lexer = Between | InString string | InNumber string | InLiteral string

definition is_space :: "char \<Rightarrow> bool" where
  "is_space c = (c \<in> set [CHR '' '', CHR 0x09, CHR 0x0A, CHR 0x0D])"

definition is_digit :: "char \<Rightarrow> bool" where
  "is_digit c = (CHR ''0'' \<le> c \<and> c \<le> CHR ''9'')"

definition is_lower :: "char \<Rightarrow> bool" where
  "is_lower c = (CHR ''a'' \<le> c \<and> c \<le> CHR ''z'')"

definition is_plain :: "char \<Rightarrow> bool" where
  "is_plain c = (CHR 0x20 \<le> c \<and> c \<le> CHR 0x7E \<and> c \<notin> set [CHR 0x22, CHR 0x5C, CHR ''<'', CHR ''>'', CHR ''&''])"

definition digit_value :: "char \<Rightarrow> nat" where
  "digit_value c = of_char c - of_char (CHR ''0'')"

definition decimal :: "string \<Rightarrow> nat" where
  "decimal ds = foldl (\<lambda>a c. 10 * a + digit_value c) 0 ds"

definition number_token :: "string \<Rightarrow> token option" where
  "number_token s =
     (let neg = (s \<noteq> [] \<and> hd s = CHR ''-''); ds = (if neg then tl s else s) in
      if ds = [] \<or> \<not> list_all is_digit ds \<or> (hd ds = CHR ''0'' \<and> (neg \<or> length ds > 1))
         \<or> decimal ds > 2 ^ 53
      then None
      else Some (TValue (JNumber (if neg then - int (decimal ds) else int (decimal ds)))))"

definition literal_token :: "string \<Rightarrow> token option" where
  "literal_token s =
     (if s = ''true'' then Some (TValue (JBool True))
      else if s = ''false'' then Some (TValue (JBool False))
      else if s = ''null'' then Some (TValue JNull)
      else None)"

definition start_token :: "char \<Rightarrow> (token list \<times> lexer) option" where
  "start_token c =
     (if is_space c then Some ([], Between)
      else if c = CHR ''{'' then Some ([LBrace], Between)
      else if c = CHR ''}'' then Some ([RBrace], Between)
      else if c = CHR '':'' then Some ([Colon], Between)
      else if c = CHR '','' then Some ([Comma], Between)
      else if c = CHR 0x22 then Some ([], InString [])
      else if c = CHR ''-'' \<or> is_digit c then Some ([], InNumber [c])
      else if is_lower c then Some ([], InLiteral [c])
      else None)"

definition after_token :: "token option \<Rightarrow> char \<Rightarrow> (token list \<times> lexer) option" where
  "after_token t c =
     (case t of
        None \<Rightarrow> None
      | Some tok \<Rightarrow>
          (case start_token c of
             None \<Rightarrow> None
           | Some (toks, st) \<Rightarrow> Some (tok # toks, st)))"

fun lex_char :: "lexer \<Rightarrow> char \<Rightarrow> (token list \<times> lexer) option" where
  "lex_char Between c = start_token c"
| "lex_char (InString s) c =
     (if c = CHR 0x22 then Some ([TString s], Between)
      else if is_plain c then Some ([], InString (s @ [c]))
      else None)"
| "lex_char (InNumber s) c =
     (if is_digit c then Some ([], InNumber (s @ [c])) else after_token (number_token s) c)"
| "lex_char (InLiteral s) c =
     (if is_lower c then Some ([], InLiteral (s @ [c])) else after_token (literal_token s) c)"

fun lex_end :: "lexer \<Rightarrow> token list option" where
  "lex_end Between = Some []"
| "lex_end (InString s) = None"
| "lex_end (InNumber s) = map_option (\<lambda>t. [t]) (number_token s)"
| "lex_end (InLiteral s) = map_option (\<lambda>t. [t]) (literal_token s)"

fun lex :: "lexer \<Rightarrow> string \<Rightarrow> token list option" where
  "lex st [] = lex_end st"
| "lex st (c # cs) =
     (case lex_char st c of
        None \<Rightarrow> None
      | Some (toks, st') \<Rightarrow> map_option (\<lambda>rest. toks @ rest) (lex st' cs))"

definition member_value :: "token \<Rightarrow> json_value option" where
  "member_value t = (case t of TValue v \<Rightarrow> Some v | TString s \<Rightarrow> Some (JString s) | _ \<Rightarrow> None)"

fun members :: "token list \<Rightarrow> (string \<times> json_value) list option" where
  "members (TString k # Colon # t # sep # rest) =
     (case member_value t of
        None \<Rightarrow> None
      | Some v \<Rightarrow>
          if sep = RBrace \<and> rest = [] then Some [(k, v)]
          else if sep = Comma then map_option (\<lambda>m. (k, v) # m) (members rest)
          else None)"
| "members _ = None"

fun object :: "token list \<Rightarrow> payload_map option" where
  "object [TValue JNull] = Some NilMap"
| "object [LBrace, RBrace] = Some (Map [])"
| "object (LBrace # rest) = map_option (\<lambda>m. Map (foldl (\<lambda>acc (k, v). AList.update k v acc) [] m)) (members rest)"
| "object _ = None"

definition go_Unmarshal :: "bytes \<Rightarrow> string + payload_map" where
  "go_Unmarshal data =
     (case lex Between data of
        None \<Rightarrow> Inl ''invalid or unsupported JSON text''
      | Some toks \<Rightarrow>
          (case object toks of
             None \<Rightarrow> Inl ''invalid or unsupported JSON text''
           | Some m \<Rightarrow> Inr m))"

fun digits :: "nat \<Rightarrow> string" where
  "digits n = (if n < 10 then [''0123456789'' ! n]
               else digits (n div 10) @ [''0123456789'' ! (n mod 10)])"

definition quote :: "string \<Rightarrow> string" where
  "quote s = [CHR 0x22] @ s @ [CHR 0x22]"

fun encode_value :: "json_value \<Rightarrow> string" where
  "encode_value JNull = ''null''"
| "encode_value (JBool b) = (if b then ''true'' else ''false'')"
| "encode_value (JNumber n) = (if n < 0 then ''-'' @ digits (nat (- n)) else digits (nat n))"
| "encode_value (JString s) = quote s"
| "encode_value JNaN = []"

fun join :: "string \<Rightarrow> string list \<Rightarrow> string" where
  "join sep [] = []"
| "join sep [x] = x"
| "join sep (x # y # xs) = x @ sep @ join sep (y # xs)"

definition supported_value :: "json_value \<Rightarrow> bool" where
  "supported_value v =
     (case v of
        JNumber n \<Rightarrow> \<bar>n\<bar> \<le> 2 ^ 53
      | JString s \<Rightarrow> list_all is_plain s
      | JNaN \<Rightarrow> False
      | _ \<Rightarrow> True)"

definition go_Marshal :: "payload_map \<Rightarrow> string + bytes" where
  "go_Marshal v =
     (case v of
        NilMap \<Rightarrow> Inr ''null''
      | Map m \<Rightarrow>
          if JNaN \<in> set (map snd m) then Inl ''json: unsupported value: NaN''
          else if list_all (\<lambda>(k, x). list_all is_plain k \<and> supported_value x) m \<and> distinct (map fst m)
          then Inr (''{'' @ join '','' (map (\<lambda>(k, x). quote k @ '':'' @ encode_value x) (sort_key fst m))
                    @ ''}'')
          else Inl ''outside the fragment'')"

definition go_json :: "payload_map encoding_json" where
  "go_json = \<lparr>json_Marshal = go_Marshal, json_Unmarshal = go_Unmarshal\<rparr>"

subsection \<open>Notions used in the statements\<close>

text \<open>
  A row decodes when \<^verbatim>\<open>json.Unmarshal\<close> accepts its payload, and \<open>decode_row\<close> is the event
  the loop of \<^verbatim>\<open>GetPendingEvents\<close> appends for it. \<open>tick_batch\<close> is the batch one call of
  \<^verbatim>\<open>publishPendingEvents\<close> works on (empty when the fetch failed).
\<close>

definition decodes :: "'p encoding_json \<Rightarrow> outbox_row \<Rightarrow> bool" where
  "decodes J r = (case json_Unmarshal J (row_payload r) of Inl e \<Rightarrow> False | Inr p \<Rightarrow> True)"

definition decode_row :: "'p encoding_json \<Rightarrow> outbox_row \<Rightarrow> 'p OutboxEvent" where
  "decode_row J r = scan_event r (projr (json_Unmarshal J (row_payload r)))"

definition tick_batch :: "'p encoding_json \<Rightarrow> environment \<Rightarrow> world \<Rightarrow> 'p OutboxEvent list" where
  "tick_batch J env w =
     (case GetPendingEvents J (query_error env) (scan_error env) (next_error env) (db w) 100 of
        Inl err \<Rightarrow> []
      | Inr events \<Rightarrow> events)"


subsection \<open>Example states\<close>

text \<open>
  A pending event as scenario 1 of the specification enqueues it, with the payload as the
  \<^verbatim>\<open>JSONB\<close> column prints it; a published and a failed row; a pending row whose payload is
  cut short; three pending rows inserted at the same instant; an event a producer enqueues
  and one whose payload holds a NaN; a table whose hundred oldest pending rows are cut short,
  with a good row after them; a healthy environment and one whose broker refuses every write.
\<close>

definition row1 :: outbox_row where
  \<open>row1 = \<lparr>row_id = ''e1'', row_aggregate_id = ''w-1'', row_event_type = ''wallet.created'',
            row_topic = ''wallet.created'', row_payload = ''{"x": 1}'', row_status = StatusPending,
            row_attempts = 0, row_last_error = None, row_created_at = 10, row_published_at = None\<rparr>\<close>

definition row_published :: outbox_row where
  \<open>row_published = \<lparr>row_id = ''e0'', row_aggregate_id = ''w-0'', row_event_type = ''wallet.created'',
            row_topic = ''wallet.created'', row_payload = ''{"x": 0}'', row_status = StatusPublished,
            row_attempts = 1, row_last_error = Some ''failed to publish event: timeout'',
            row_created_at = 1, row_published_at = Some 5\<rparr>\<close>

definition row_failed :: outbox_row where
  \<open>row_failed = \<lparr>row_id = ''e9'', row_aggregate_id = ''w-9'', row_event_type = ''wallet.created'',
            row_topic = ''wallet.created'', row_payload = ''{"x": 9}'', row_status = StatusFailed,
            row_attempts = 5, row_last_error = Some ''failed to publish event: timeout'',
            row_created_at = 2, row_published_at = None\<rparr>\<close>

definition row_bad :: outbox_row where
  \<open>row_bad = \<lparr>row_id = ''e2'', row_aggregate_id = ''w-2'', row_event_type = ''wallet.created'',
            row_topic = ''wallet.created'', row_payload = ''{"x": '', row_status = StatusPending,
            row_attempts = 0, row_last_error = None, row_created_at = 3, row_published_at = None\<rparr>\<close>

definition row_b :: outbox_row where
  \<open>row_b = row1\<lparr>row_id := ''b'', row_created_at := 7\<rparr>\<close>

definition row_a :: outbox_row where
  \<open>row_a = row1\<lparr>row_id := ''a'', row_created_at := 7\<rparr>\<close>

definition row_c :: outbox_row where
  \<open>row_c = row1\<lparr>row_id := ''c'', row_created_at := 7\<rparr>\<close>

definition event1 :: "payload_map OutboxEvent" where
  "event1 = \<lparr>ID = [], AggregateID = ''w-1'', EventType = ''wallet.created'',
             Topic = ''wallet.created'', Payload = Map [(''x'', JNumber 1)], Status = [],
             Attempts = 0, LastError = None, CreatedAt = 0, PublishedAt = None\<rparr>"

definition event_nan :: "payload_map OutboxEvent" where
  "event_nan = event1\<lparr>Payload := Map [(''x'', JNaN)]\<rparr>"

definition bad_row :: "nat \<Rightarrow> outbox_row" where
  "bad_row n = row_bad\<lparr>row_id := digits n, row_created_at := int n\<rparr>"

definition long_reason :: string where
  "long_reason = replicate 5000 (CHR ''x'')"

definition row4 :: outbox_row where
  "row4 = row1\<lparr>row_id := ''e4'', row_attempts := 4, row_created_at := 11\<rparr>"

definition w_retry :: world where
  "w_retry = \<lparr>db = [row1, row4], broker = []\<rparr>"

definition w_ties :: world where
  "w_ties = \<lparr>db = [row_b, row_a, row_c], broker = []\<rparr>"

definition w1 :: world where
  "w1 = \<lparr>db = [row1], broker = []\<rparr>"

definition w2 :: world where
  "w2 = \<lparr>db = [row_published, row_failed, row_bad, row1], broker = []\<rparr>"

definition w100 :: world where
  "w100 = \<lparr>db = map bad_row [0..<100] @ [row1\<lparr>row_created_at := 100\<rparr>], broker = []\<rparr>"

definition healthy :: environment where
  "healthy = \<lparr>query_error = None, scan_error = (\<lambda>r. None), next_error = None,
              write_error = (\<lambda>i. None),
              exec_error = (\<lambda>i. None), current_timestamp = (\<lambda>i. 20)\<rparr>"

definition broker_down :: environment where
  "broker_down = healthy\<lparr>write_error := (\<lambda>i. Some ''connection refused'')\<rparr>"

section \<open>Properties\<close>

lemmas codec_defs = go_json_def go_Unmarshal_def go_Marshal_def start_token_def is_space_def
  is_digit_def is_lower_def is_plain_def number_token_def literal_token_def decimal_def
  digit_value_def after_token_def member_value_def supported_value_def quote_def

lemmas relay_defs = publishPendingEvents_def GetPendingEvents_def rows_Next_def select_pending_def
  scan_event_def
  publish_event_def PublishEvent_def MarkAsPublished_def MarkAsFailed_def IncrementAttempt_def
  update_where_id_def RowsAffected_def StatusPending_def StatusPublished_def StatusFailed_def
  Let_def

lemmas example_defs = row1_def row_published_def row_failed_def row_bad_def w1_def w2_def
  healthy_def broker_down_def row_a_def row_b_def row_c_def event1_def event_nan_def

subsection \<open>Updates by id\<close>

lemma row_step_id: "row_id (row_step J env i e r) = row_id r"
  by (simp add: row_step_def split: option.splits sum.splits)

lemma db_publish_event:
  "db (publish_event J env i e w) = update_where_id (ID e) (row_step J env i e) (db w)"
proof (cases "exec_error env i")
  case None
  then show ?thesis
    by (cases "PublishEvent J (write_error env i) (Topic e) (AggregateID e) (Payload e)")
      (simp_all add: publish_event_def update_where_id_def row_step_def MarkAsFailed_def
        IncrementAttempt_def MarkAsPublished_def Let_def)
next
  case (Some x)
  then show ?thesis
    by (cases "PublishEvent J (write_error env i) (Topic e) (AggregateID e) (Payload e)")
      (simp_all add: publish_event_def update_where_id_def row_step_def MarkAsFailed_def
        IncrementAttempt_def MarkAsPublished_def map_idI)
qed

lemma db_publish_loop:
  "db (publish_loop J env i es w) = map (row_after J env i es) (db w)"
proof (induction es arbitrary: i w)
  case Nil
  show ?case by (simp add: map_idI)
next
  case (Cons e es)
  show ?case
    by (simp add: Cons.IH db_publish_event update_where_id_def)
qed

lemma row_after_id: "row_id (row_after J env i es r) = row_id r"
  by (induction es arbitrary: i r) (simp_all add: row_step_id)

lemma row_after_other: "row_id r \<notin> ID ` set es \<Longrightarrow> row_after J env i es r = r"
  by (induction es arbitrary: i) auto

lemma row_after_nth:
  "distinct (map ID es) \<Longrightarrow> k < length es \<Longrightarrow> row_id r = ID (es ! k)
    \<Longrightarrow> row_after J env i es r = row_step J env (i + k) (es ! k) r"
proof (induction es arbitrary: i k r)
  case Nil
  then show ?case by simp
next
  case (Cons e es)
  show ?case
  proof (cases k)
    case 0
    have "row_id (row_step J env i e r) \<notin> ID ` set es"
      using Cons.prems 0 by (simp add: row_step_id)
    then show ?thesis
      using Cons.prems 0 by (simp add: row_after_other)
  next
    case (Suc k')
    have "es ! k' \<in> set es"
      using Cons.prems Suc by simp
    then have "ID (es ! k') \<in> ID ` set es"
      by (rule imageI)
    moreover have "ID e \<notin> ID ` set es"
      using Cons.prems by simp
    moreover have "row_id r = ID (es ! k')"
      using Cons.prems Suc by simp
    ultimately have "row_id r \<noteq> ID e"
      by metis
    then show ?thesis
      using Cons.prems Suc Cons.IH [of k' r "Suc i"] by simp
  qed
qed

subsection \<open>The batch\<close>

lemma select_pending_subset: "set (select_pending tbl limit) \<subseteq> set tbl"
  unfolding select_pending_def using set_take_subset by fastforce

lemma select_pending_pending:
  "r \<in> set (select_pending tbl limit) \<Longrightarrow> row_status r = StatusPending \<and> row_attempts r < 5"
  unfolding select_pending_def by (auto dest: in_set_takeD)

lemma select_pending_length: "0 \<le> limit \<Longrightarrow> length (select_pending tbl limit) \<le> nat limit"
  unfolding select_pending_def by simp

lemma select_pending_sorted: "sorted (map row_created_at (select_pending tbl limit))"
  unfolding select_pending_def by (simp add: take_map [symmetric] sorted_wrt_take)

lemma select_pending_distinct:
  "distinct (map row_id tbl) \<Longrightarrow> distinct (map row_id (select_pending tbl limit))"
proof -
  assume d: "distinct (map row_id tbl)"
  let ?f = "filter (\<lambda>r. row_status r = StatusPending \<and> row_attempts r < 5) tbl"
  have "distinct (map row_id ?f)" using d by (rule distinct_map_filter)
  then have "distinct (map row_id (sort_key row_created_at ?f))"
    by (simp add: distinct_map)
  then show ?thesis
    unfolding select_pending_def by (simp add: take_map [symmetric] distinct_take)
qed

lemma rows_Next_subset: "set (rows_Next stop rows) \<subseteq> set rows"
  by (cases stop) (auto simp: rows_Next_def dest: in_set_takeD)

lemma rows_Next_length: "length (rows_Next stop rows) \<le> length rows"
  by (cases stop) (simp_all add: rows_Next_def)

lemma rows_Next_sorted:
  "sorted (map row_created_at rows) \<Longrightarrow> sorted (map row_created_at (rows_Next stop rows))"
  by (cases stop) (simp_all add: rows_Next_def take_map [symmetric] sorted_wrt_take)

lemma rows_Next_distinct:
  "distinct (map row_id rows) \<Longrightarrow> distinct (map row_id (rows_Next stop rows))"
  by (cases stop) (simp_all add: rows_Next_def take_map [symmetric] distinct_take)

lemma rows_Next_whole [simp]: "rows_Next None rows = rows"
  by (simp add: rows_Next_def)

lemma scan_rows_ok:
  "\<forall>r\<in>set rows. scan r = None \<Longrightarrow>
   scan_rows J scan rows acc = Inr (acc @ map (decode_row J) (filter (decodes J) rows))"
  by (induction rows arbitrary: acc) (auto simp: decodes_def decode_row_def split: sum.splits)

lemma scan_rows_error:
  "\<exists>r\<in>set rows. scan r \<noteq> None \<Longrightarrow> \<exists>e. scan_rows J scan rows acc = Inl (ScanEventError e)"
  by (induction rows arbitrary: acc) (auto split: sum.splits option.splits)

lemma scan_rows_Inr:
  "scan_rows J scan rows acc = Inr evs \<Longrightarrow>
   evs = acc @ map (decode_row J) (filter (decodes J) rows)"
proof -
  assume a: "scan_rows J scan rows acc = Inr evs"
  have "\<not> (\<exists>r\<in>set rows. scan r \<noteq> None)"
  proof
    assume "\<exists>r\<in>set rows. scan r \<noteq> None"
    then obtain e where "scan_rows J scan rows acc = Inl (ScanEventError e)"
      using scan_rows_error by blast
    with a show False by simp
  qed
  then have "\<forall>r\<in>set rows. scan r = None" by blast
  then show ?thesis using a by (simp add: scan_rows_ok)
qed

lemma GetPendingEvents_Inr:
  "GetPendingEvents J q scan stop tbl limit = Inr evs \<Longrightarrow>
   evs = map (decode_row J) (filter (decodes J) (rows_Next stop (select_pending tbl limit)))"
  unfolding GetPendingEvents_def
  by (auto split: option.splits if_splits dest: scan_rows_Inr)

lemma decode_row_ID [simp]: "ID (decode_row J r) = row_id r"
  by (simp add: decode_row_def scan_event_def)

lemma decode_row_Attempts [simp]: "Attempts (decode_row J r) = row_attempts r"
  by (simp add: decode_row_def scan_event_def)

lemma batch_ids:
  "GetPendingEvents J q scan stop tbl limit = Inr evs \<Longrightarrow>
   map ID evs = map row_id (filter (decodes J) (rows_Next stop (select_pending tbl limit)))"
  by (drule GetPendingEvents_Inr) (simp add: comp_def)

lemma batch_distinct:
  "distinct (map row_id tbl) \<Longrightarrow> GetPendingEvents J q scan stop tbl limit = Inr evs \<Longrightarrow>
   distinct (map ID evs)"
  by (simp add: batch_ids distinct_map_filter select_pending_distinct rows_Next_distinct)


subsection \<open>One tick\<close>

lemma tick_batch_eq:
  "tick_batch J env w = [] \<or>
   tick_batch J env w =
     map (decode_row J) (filter (decodes J) (rows_Next (next_error env) (select_pending (db w) 100)))"
  unfolding tick_batch_def
  by (cases "GetPendingEvents J (query_error env) (scan_error env) (next_error env) (db w) 100")
    (auto dest: GetPendingEvents_Inr)

lemma tick_batch_distinct:
  "distinct (map row_id (db w)) \<Longrightarrow> distinct (map ID (tick_batch J env w))"
  unfolding tick_batch_def
  by (cases "GetPendingEvents J (query_error env) (scan_error env) (next_error env) (db w) 100")
    (auto dest: batch_distinct)

lemma tick_batch_nth:
  assumes "k < length (tick_batch J env w)"
  shows "\<exists>r\<in>set (select_pending (db w) 100).
           decodes J r \<and> tick_batch J env w ! k = decode_row J r"
proof -
  let ?rows = "filter (decodes J) (rows_Next (next_error env) (select_pending (db w) 100))"
  have eq: "tick_batch J env w = map (decode_row J) ?rows"
    using assms tick_batch_eq [of J env w] by auto
  then have k: "k < length ?rows" using assms by simp
  then have "?rows ! k \<in> set ?rows" by (rule nth_mem)
  then have "?rows ! k \<in> set (select_pending (db w) 100) \<and> decodes J (?rows ! k)"
    using rows_Next_subset [of "next_error env" "select_pending (db w) 100"] by auto
  moreover have "tick_batch J env w ! k = decode_row J (?rows ! k)"
    using eq k by simp
  ultimately show ?thesis by blast
qed

lemma db_tick:
  "db (snd (publishPendingEvents J env w)) = map (row_after J env 0 (tick_batch J env w)) (db w)"
  unfolding publishPendingEvents_def tick_batch_def
  by (cases "GetPendingEvents J (query_error env) (scan_error env) (next_error env) (db w) 100")
    (simp_all add: db_publish_loop map_idI)

lemma ids_tick:
  "map row_id (db (snd (publishPendingEvents J env w))) = map row_id (db w)"
  by (simp add: db_tick row_after_id comp_def)

lemma same_id_same_row:
  "distinct (map row_id tbl) \<Longrightarrow> r \<in> set tbl \<Longrightarrow> r' \<in> set tbl \<Longrightarrow> row_id r = row_id r'
    \<Longrightarrow> r = r'"
  by (auto simp: distinct_map dest: inj_onD)

lemma tick_row:
  assumes d: "distinct (map row_id (db w))" and r: "r \<in> set (db w)"
  shows "row_after J env 0 (tick_batch J env w) r = r \<or>
         (\<exists>k. row_status r = StatusPending \<and> row_attempts r < 5 \<and> decodes J r \<and>
              k < length (tick_batch J env w) \<and> tick_batch J env w ! k = decode_row J r \<and>
              row_after J env 0 (tick_batch J env w) r = row_step J env k (decode_row J r) r)"
proof (cases "row_id r \<in> ID ` set (tick_batch J env w)")
  case False
  then show ?thesis by (simp add: row_after_other)
next
  case True
  then obtain k where k: "k < length (tick_batch J env w)"
    and idk: "ID (tick_batch J env w ! k) = row_id r"
    by (auto simp: in_set_conv_nth)
  obtain r0 where r0: "r0 \<in> set (select_pending (db w) 100)" "decodes J r0"
    and ev: "tick_batch J env w ! k = decode_row J r0"
    using tick_batch_nth [OF k] by blast
  have "r0 \<in> set (db w)" using r0 select_pending_subset by blast
  moreover have "row_id r0 = row_id r" using idk ev by simp
  ultimately have "r0 = r" using d r by (blast intro: same_id_same_row)
  moreover have "row_after J env 0 (tick_batch J env w) r =
      row_step J env (0 + k) (tick_batch J env w ! k) r"
    using tick_batch_distinct [OF d] k idk by (intro row_after_nth) simp_all
  ultimately show ?thesis
    using r0 ev k select_pending_pending [of r0 "db w" 100] by auto
qed

lemma tick_unselected:
  assumes "distinct (map row_id (db w))" and "r \<in> set (db w)"
    and "row_status r \<noteq> StatusPending \<or> \<not> row_attempts r < 5 \<or> \<not> decodes J r"
  shows "r \<in> set (db (snd (publishPendingEvents J env w)))"
proof -
  have "row_after J env 0 (tick_batch J env w) r = r"
    using tick_row [OF assms(1,2), of J env] assms(3) by auto
  then have "r \<in> row_after J env 0 (tick_batch J env w) ` set (db w)"
    using assms(2) by force
  then show ?thesis by (simp add: db_tick)
qed

subsection \<open>Enqueue and runs\<close>

lemma SaveEvent_table:
  "fst (snd (SaveEvent J reply tx ev)) = tx \<or>
   (\<exists>r. fst (snd (SaveEvent J reply tx ev)) = tx @ [r] \<and> row_id r \<notin> set (map row_id tx) \<and>
        row_status r = StatusPending \<and> row_attempts r = 0)"
  unfolding SaveEvent_def
  by (auto split: sum.splits prod.splits simp: Let_def)

lemma step_distinct:
  "distinct (map row_id (db w)) \<Longrightarrow> distinct (map row_id (db (step J a w)))"
proof (cases a)
  case (Tick env)
  assume "distinct (map row_id (db w))"
  then show ?thesis using Tick by (simp add: ids_tick)
next
  case (Enqueue reply ev)
  assume "distinct (map row_id (db w))"
  then show ?thesis
    using Enqueue SaveEvent_table [of J reply "db w" ev] by auto
qed

lemma step_unselected:
  assumes "distinct (map row_id (db w))" and "r \<in> set (db w)"
    and "row_status r \<noteq> StatusPending \<or> \<not> row_attempts r < 5 \<or> \<not> decodes J r"
  shows "r \<in> set (db (step J a w))"
proof (cases a)
  case (Tick env)
  then show ?thesis using assms by (simp add: tick_unselected)
next
  case (Enqueue reply ev)
  then show ?thesis
    using assms(2) SaveEvent_table [of J reply "db w" ev] by auto
qed

lemma run_distinct:
  "distinct (map row_id (db w)) \<Longrightarrow> distinct (map row_id (db (run J acts w)))"
  by (induction acts arbitrary: w) (simp_all add: step_distinct)

lemma run_unselected:
  "distinct (map row_id (db w)) \<Longrightarrow> r \<in> set (db w) \<Longrightarrow>
   row_status r \<noteq> StatusPending \<or> \<not> row_attempts r < 5 \<or> \<not> decodes J r \<Longrightarrow>
   r \<in> set (db (run J acts w))"
proof (induction acts arbitrary: w)
  case Nil
  then show ?case by simp
next
  case (Cons a acts)
  show ?case
    using Cons.prems by (simp add: Cons.IH step_distinct step_unselected)
qed

lemma status_neq [simp]:
  "StatusPending \<noteq> StatusPublished" "StatusPending \<noteq> StatusFailed"
  "StatusPublished \<noteq> StatusFailed" "StatusPublished \<noteq> StatusPending"
  "StatusFailed \<noteq> StatusPending" "StatusFailed \<noteq> StatusPublished"
  by (simp_all add: StatusPending_def StatusPublished_def StatusFailed_def)

subsection \<open>Terminal rows\<close>

text \<open>
  C4. A row that is \<^verbatim>\<open>published\<close> or \<^verbatim>\<open>failed\<close> is never written again: through every
  sequence of ticks of the publisher and committed enqueues, for every behaviour of broker
  and database, the row stays in the table as it is, and the row with its id keeps its
  status. The table's ids are distinct (the primary key).
\<close>

theorem terminal_rows_stay_terminal:
  assumes "distinct (map row_id (db w))" and "r \<in> set (db w)"
    and "row_status r = StatusPublished \<or> row_status r = StatusFailed"
  shows "r \<in> set (db (run J acts w)) \<and>
         (\<forall>r'\<in>set (db (run J acts w)). row_id r' = row_id r \<longrightarrow> row_status r' = row_status r)"
proof -
  have "row_status r \<noteq> StatusPending" using assms(3) by auto
  then have in_final: "r \<in> set (db (run J acts w))"
    using assms(1,2) by (simp add: run_unselected)
  moreover have "distinct (map row_id (db (run J acts w)))"
    using assms(1) by (rule run_distinct)
  ultimately show ?thesis
    by (auto dest: same_id_same_row)
qed


theorem terminal_rows_stay_terminal_witness:
  "distinct (map row_id (db w2)) \<and> row_failed \<in> set (db w2) \<and>
   row_status row_failed = StatusFailed \<and>
   row_failed \<in> set (db (run go_json [Tick broker_down, Tick healthy] w2)) \<and>
   map row_status (db (run go_json [Tick broker_down, Tick healthy] w2)) =
     [StatusPublished, StatusFailed, StatusPending, StatusPublished]"
proof -
  have d: "distinct (map row_id (db w2))"
    by (simp add: example_defs)
  have m: "row_failed \<in> set (db w2)"
    by (simp add: example_defs)
  have s: "row_status row_failed = StatusPublished \<or> row_status row_failed = StatusFailed"
    by (simp add: example_defs)
  have e: "map row_status (db (run go_json [Tick broker_down, Tick healthy] w2)) =
     [StatusPublished, StatusFailed, StatusPending, StatusPublished]"
    by (simp add: relay_defs codec_defs example_defs)
  from terminal_rows_stay_terminal [OF d m s, of go_json "[Tick broker_down, Tick healthy]"] d m e
  show ?thesis by (simp add: example_defs)
qed

subsection \<open>Failed rows\<close>

lemma row_step_failed:
  assumes "row_status (row_step J env k e r) = StatusFailed"
    and "row_status r = StatusPending" and "row_attempts r < 5" and "Attempts e = row_attempts r"
  shows "row_attempts (row_step J env k e r) = 5"
  using assms unfolding row_step_def
  by (auto split: option.splits sum.splits if_splits)

lemma tick_failed:
  assumes d: "distinct (map row_id (db w))"
    and inv: "\<forall>r\<in>set (db w). row_status r = StatusFailed \<longrightarrow> row_attempts r = 5"
  shows "\<forall>r\<in>set (db (snd (publishPendingEvents J env w))).
           row_status r = StatusFailed \<longrightarrow> row_attempts r = 5"
proof (intro ballI impI)
  fix r' assume r': "r' \<in> set (db (snd (publishPendingEvents J env w)))"
    and f: "row_status r' = StatusFailed"
  from r' obtain r where r: "r \<in> set (db w)"
    and eq: "r' = row_after J env 0 (tick_batch J env w) r"
    by (auto simp: db_tick)
  from tick_row [OF d r, of J env] show "row_attempts r' = 5"
  proof
    assume "row_after J env 0 (tick_batch J env w) r = r"
    then show ?thesis using eq f inv r by simp
  next
    assume "\<exists>k. row_status r = StatusPending \<and> row_attempts r < 5 \<and> decodes J r \<and>
              k < length (tick_batch J env w) \<and> tick_batch J env w ! k = decode_row J r \<and>
              row_after J env 0 (tick_batch J env w) r = row_step J env k (decode_row J r) r"
    then obtain k where "row_status r = StatusPending" "row_attempts r < 5"
      "r' = row_step J env k (decode_row J r) r"
      using eq by auto
    then show ?thesis using f by (simp add: row_step_failed)
  qed
qed

lemma step_failed:
  assumes "distinct (map row_id (db w))"
    and "\<forall>r\<in>set (db w). row_status r = StatusFailed \<longrightarrow> row_attempts r = 5"
  shows "\<forall>r\<in>set (db (step J a w)). row_status r = StatusFailed \<longrightarrow> row_attempts r = 5"
proof (cases a)
  case (Tick env)
  then show ?thesis using tick_failed [OF assms] by simp
next
  case (Enqueue reply ev)
  then show ?thesis
    using assms(2) SaveEvent_table [of J reply "db w" ev] by auto
qed

text \<open>
  C3. Start from a table in which no row is \<^verbatim>\<open>failed\<close> with an attempts count other than 5
  (in particular from freshly enqueued rows, which are pending with 0 attempts). Then after
  every sequence of ticks and committed enqueues every failed row has \<^verbatim>\<open>attempts = 5\<close>: a
  row becomes failed only in the tick that finds it with 4 attempts.
\<close>

theorem failed_rows_have_five_attempts:
  assumes "distinct (map row_id (db w))"
    and "\<forall>r\<in>set (db w). row_status r = StatusFailed \<longrightarrow> row_attempts r = 5"
  shows "\<forall>r\<in>set (db (run J acts w)). row_status r = StatusFailed \<longrightarrow> row_attempts r = 5"
  using assms
proof (induction acts arbitrary: w)
  case Nil
  then show ?case by simp
next
  case (Cons a acts)
  show ?case
    using Cons.IH [OF step_distinct [OF Cons.prems(1)] step_failed [OF Cons.prems]] by simp
qed

theorem failed_rows_have_five_attempts_witness:
  "distinct (map row_id (db w1)) \<and> map row_status (db w1) = [StatusPending] \<and>
   map row_attempts (db w1) = [0] \<and>
   map row_status (db (run go_json [Tick broker_down, Tick broker_down, Tick broker_down, Tick broker_down, Tick broker_down] w1)) = [StatusFailed] \<and>
   map row_attempts (db (run go_json [Tick broker_down, Tick broker_down, Tick broker_down, Tick broker_down, Tick broker_down] w1)) = [5]"
proof -
  let ?w = "run go_json [Tick broker_down, Tick broker_down, Tick broker_down, Tick broker_down, Tick broker_down] w1"
  have d: "distinct (map row_id (db w1))"
    by (simp add: example_defs)
  have h: "\<forall>r\<in>set (db w1). row_status r = StatusFailed \<longrightarrow> row_attempts r = 5"
    by (simp add: example_defs StatusPending_def StatusFailed_def)
  have s: "map row_status (db ?w) = [StatusFailed]"
    by (simp add: relay_defs codec_defs example_defs)
  then obtain r where r: "db ?w = [r]" "row_status r = StatusFailed"
    by auto
  then have "row_attempts r = 5"
    using failed_rows_have_five_attempts [OF d h, of go_json "[Tick broker_down, Tick broker_down, Tick broker_down, Tick broker_down, Tick broker_down]"]
    by simp
  with r s d show ?thesis
    by (simp add: example_defs)
qed

subsection \<open>Enqueue\<close>

text \<open>
  C7, as amended. \<^verbatim>\<open>SaveEvent\<close> returns the marshal error exactly when \<^verbatim>\<open>json.Marshal\<close>
  refuses the payload, and then the table and the caller's event are as before. When the
  payload marshals and the server answers the \<^verbatim>\<open>INSERT\<close> with an id that is new, exactly one
  row is appended, pending with 0 attempts, and the id and \<^verbatim>\<open>created_at\<close> of the answer are
  written into the caller's event. When the payload marshals and the database refuses the
  \<^verbatim>\<open>INSERT\<close>, the save error is returned and no row is inserted.
\<close>

theorem SaveEvent_outcomes:
  "((\<exists>e. fst (SaveEvent J reply tx ev) = Some (MarshalPayloadError e))
      \<longleftrightarrow> isl (json_Marshal J (Payload ev))) \<and>
   (isl (json_Marshal J (Payload ev)) \<longrightarrow> snd (SaveEvent J reply tx ev) = (tx, ev)) \<and>
   (\<forall>payloadJSON new_id now.
      json_Marshal J (Payload ev) = Inr payloadJSON \<and> reply = Inr (new_id, now) \<and>
      new_id \<notin> set (map row_id tx) \<longrightarrow>
      SaveEvent J reply tx ev =
        (None,
         tx @ [\<lparr>row_id = new_id, row_aggregate_id = AggregateID ev, row_event_type = EventType ev,
                row_topic = Topic ev, row_payload = payloadJSON, row_status = StatusPending,
                row_attempts = 0, row_last_error = None, row_created_at = now,
                row_published_at = None\<rparr>],
         ev\<lparr>Status := StatusPending, Attempts := 0, ID := new_id, CreatedAt := now\<rparr>)) \<and>
   (\<not> isl (json_Marshal J (Payload ev)) \<and> (isl reply \<or> fst (projr reply) \<in> set (map row_id tx)) \<longrightarrow>
      (\<exists>e. SaveEvent J reply tx ev =
        (Some (SaveEventError e), tx, ev\<lparr>Status := StatusPending, Attempts := 0\<rparr>)))"
  unfolding SaveEvent_def
  by (cases "json_Marshal J (Payload ev)"; cases reply) (auto simp: Let_def split: if_splits)

theorem SaveEvent_outcomes_witness:
  \<open>json_Marshal go_json (Payload event1) = Inr ''{"x":1}'' \<and>
   ''e3'' \<notin> set (map row_id (db w1)) \<and>
   SaveEvent go_json (Inr (''e3'', 30)) (db w1) event1 =
     (None,
      db w1 @ [\<lparr>row_id = ''e3'', row_aggregate_id = ''w-1'', row_event_type = ''wallet.created'',
                row_topic = ''wallet.created'', row_payload = ''{"x":1}'',
                row_status = StatusPending, row_attempts = 0, row_last_error = None,
                row_created_at = 30, row_published_at = None\<rparr>],
      event1\<lparr>Status := StatusPending, Attempts := 0, ID := ''e3'', CreatedAt := 30\<rparr>) \<and>
   isl (json_Marshal go_json (Payload event_nan)) \<and>
   SaveEvent go_json (Inr (''e3'', 30)) (db w1) event_nan =
     (Some (MarshalPayloadError ''json: unsupported value: NaN''), db w1, event_nan)\<close>
proof -
  have m: \<open>json_Marshal go_json (Payload event1) = Inr ''{"x":1}''\<close>
    by (simp add: codec_defs example_defs)
  have i: "''e3'' \<notin> set (map row_id (db w1))"
    by (simp add: example_defs)
  have n: "isl (json_Marshal go_json (Payload event_nan))"
    by (simp add: codec_defs example_defs)
  have f: "fst (SaveEvent go_json (Inr (''e3'', 30)) (db w1) event_nan) =
      Some (MarshalPayloadError ''json: unsupported value: NaN'')"
    by (simp add: SaveEvent_def codec_defs example_defs)
  have a: \<open>SaveEvent go_json (Inr (''e3'', 30)) (db w1) event1 =
     (None,
      db w1 @ [\<lparr>row_id = ''e3'', row_aggregate_id = AggregateID event1,
                row_event_type = EventType event1, row_topic = Topic event1,
                row_payload = ''{"x":1}'', row_status = StatusPending, row_attempts = 0,
                row_last_error = None, row_created_at = 30, row_published_at = None\<rparr>],
      event1\<lparr>Status := StatusPending, Attempts := 0, ID := ''e3'', CreatedAt := 30\<rparr>)\<close>
    using SaveEvent_outcomes [of go_json "Inr (''e3'', 30)" "db w1" event1] m i by simp
  have b: "snd (SaveEvent go_json (Inr (''e3'', 30)) (db w1) event_nan) = (db w1, event_nan)"
    using SaveEvent_outcomes [of go_json "Inr (''e3'', 30)" "db w1" event_nan] n by simp
  have c: "SaveEvent go_json (Inr (''e3'', 30)) (db w1) event_nan =
     (Some (MarshalPayloadError ''json: unsupported value: NaN''), db w1, event_nan)"
    using f b by (simp add: prod_eq_iff)
  have e: "AggregateID event1 = ''w-1'' \<and> EventType event1 = ''wallet.created'' \<and>
      Topic event1 = ''wallet.created''"
    by (simp add: example_defs)
  show ?thesis
    using m i n a c e by simp
qed

text \<open>
  The claim as it was stated has every serializable payload inserted. With the database
  down the payload marshals, and no row is inserted.
\<close>

theorem SaveEvent_store_error_inserts_nothing:
  \<open>json_Marshal go_json (Payload event1) = Inr ''{"x":1}'' \<and>
   SaveEvent go_json (Inl ''connection refused'') [] event1 =
     (Some (SaveEventError ''connection refused''), [],
      event1\<lparr>Status := StatusPending, Attempts := 0\<rparr>)\<close>
  by (simp add: SaveEvent_def codec_defs example_defs)

subsection \<open>Updates of a row that is not there\<close>

text \<open>
  C8. For an id that matches no row, \<^verbatim>\<open>MarkAsFailed\<close> and \<^verbatim>\<open>IncrementAttempt\<close> return no error,
  where the claim has them report that the event was not found; \<^verbatim>\<open>MarkAsPublished\<close>, which
  reads \<^verbatim>\<open>RowsAffected\<close>, does report it. The table is that of \<open>w1\<close>, whose only id is
  \<^verbatim>\<open>e1\<close>.
\<close>

theorem record_failure_ignores_missing_row:
  "MarkAsFailed None (db w1) ''no-such-id'' ''boom'' = (None, db w1) \<and>
   IncrementAttempt None (db w1) ''no-such-id'' ''boom'' = (None, db w1) \<and>
   MarkAsPublished None 20 (db w1) ''no-such-id'' = (Some (EventNotFound ''no-such-id''), db w1) \<and>
   RowsAffected ''no-such-id'' (db w1) = 0"
  by (simp add: relay_defs example_defs)

subsection \<open>The stored error message\<close>

lemma update_where_id_hit:
  assumes "r \<in> set (update_where_id eventID f tbl)" and "row_id r = eventID"
    and "\<And>x. row_id (f x) = row_id x"
  shows "\<exists>x\<in>set tbl. r = f x"
proof -
  from assms(1) have "r \<in> (\<lambda>x. if row_id x = eventID then f x else x) ` set tbl"
    by (simp only: update_where_id_def set_map)
  then obtain x where x: "x \<in> set tbl" "r = (if row_id x = eventID then f x else x)"
    by (rule imageE)
  show ?thesis
  proof (cases "row_id x = eventID")
    case True
    with x show ?thesis by auto
  next
    case False
    with x assms(2) show ?thesis by simp
  qed
qed

lemma update_where_id_ids:
  "(\<And>x. row_id (f x) = row_id x) \<Longrightarrow> map row_id (update_where_id eventID f tbl) = map row_id tbl"
  by (induction tbl) (simp_all add: update_where_id_def)

text \<open>
  C9, as amended. \<^verbatim>\<open>MarkAsFailed\<close> and \<^verbatim>\<open>IncrementAttempt\<close> store the reason as it is, whatever
  its length: after either, every row with the given id has \<^verbatim>\<open>last_error\<close> equal to the
  reason, and the table has the rows (ids) it had. Nothing is cut and nothing is appended.
\<close>

theorem last_error_is_the_whole_reason:
  "(\<forall>r\<in>set (snd (MarkAsFailed None tbl eventID reason)).
       row_id r = eventID \<longrightarrow> row_last_error r = Some reason) \<and>
   (\<forall>r\<in>set (snd (IncrementAttempt None tbl eventID reason)).
       row_id r = eventID \<longrightarrow> row_last_error r = Some reason) \<and>
   map row_id (snd (MarkAsFailed None tbl eventID reason)) = map row_id tbl \<and>
   map row_id (snd (IncrementAttempt None tbl eventID reason)) = map row_id tbl"
proof -
  let ?f = "\<lambda>r. r\<lparr>row_status := StatusFailed, row_attempts := row_attempts r + 1,
                    row_last_error := Some reason\<rparr>"
  let ?g = "\<lambda>r. r\<lparr>row_attempts := row_attempts r + 1, row_last_error := Some reason\<rparr>"
  have f: "snd (MarkAsFailed None tbl eventID reason) = update_where_id eventID ?f tbl"
    by (simp add: MarkAsFailed_def)
  have g: "snd (IncrementAttempt None tbl eventID reason) = update_where_id eventID ?g tbl"
    by (simp add: IncrementAttempt_def)
  have "\<forall>r\<in>set (update_where_id eventID ?f tbl). row_id r = eventID \<longrightarrow> row_last_error r = Some reason"
  proof (intro ballI impI)
    fix r assume "r \<in> set (update_where_id eventID ?f tbl)" "row_id r = eventID"
    then obtain x where "r = ?f x"
      using update_where_id_hit [of r eventID ?f tbl] by auto
    then show "row_last_error r = Some reason" by simp
  qed
  moreover have "\<forall>r\<in>set (update_where_id eventID ?g tbl). row_id r = eventID \<longrightarrow> row_last_error r = Some reason"
  proof (intro ballI impI)
    fix r assume "r \<in> set (update_where_id eventID ?g tbl)" "row_id r = eventID"
    then obtain x where "r = ?g x"
      using update_where_id_hit [of r eventID ?g tbl] by auto
    then show "row_last_error r = Some reason" by simp
  qed
  ultimately show ?thesis
    by (simp add: f g update_where_id_ids)
qed

theorem last_error_is_the_whole_reason_witness:
  "map row_id (db w1) = [''e1''] \<and>
   map row_last_error (snd (MarkAsFailed None (db w1) ''e1'' long_reason))
     = [Some long_reason] \<and>
   map row_last_error (snd (IncrementAttempt None (db w1) ''e1'' ''timeout'')) = [Some ''timeout'']"
proof -
  let ?long = long_reason
  have i: "map row_id (db w1) = [''e1'']"
    by (simp add: example_defs)
  obtain r where r: "snd (MarkAsFailed None (db w1) ''e1'' ?long) = [r]" "row_id r = ''e1''"
    by (simp add: MarkAsFailed_def update_where_id_def example_defs)
  obtain r' where r': "snd (IncrementAttempt None (db w1) ''e1'' ''timeout'') = [r']"
      "row_id r' = ''e1''"
    by (simp add: IncrementAttempt_def update_where_id_def example_defs)
  have "row_last_error r = Some ?long"
    using last_error_is_the_whole_reason [of "db w1" "''e1''" ?long] r by simp
  moreover have "row_last_error r' = Some ''timeout''"
    using last_error_is_the_whole_reason [of "db w1" "''e1''" "''timeout''"] r' by simp
  ultimately show ?thesis using i r r' by simp
qed

text \<open>
  The claim as it was stated has a reason beyond the cap (4096 bytes in the specification)
  stored cut, with a marker. A reason of 5000 bytes is stored whole by both updates.
\<close>

theorem long_reason_not_truncated:
  "map row_last_error (snd (MarkAsFailed None (db w1) ''e1'' long_reason))
     = [Some long_reason] \<and>
   map row_last_error (snd (IncrementAttempt None (db w1) ''e1'' long_reason))
     = [Some long_reason] \<and>
   length long_reason = 5000 \<and> (4096 :: nat) < 5000"
proof -
  have "length long_reason = 5000"
    by (simp add: long_reason_def)
  then show ?thesis
    by (simp add: MarkAsFailed_def IncrementAttempt_def update_where_id_def example_defs)
qed

subsection \<open>The fetched batch\<close>

lemma decode_row_fields:
  "Status (decode_row J r) = row_status r" "CreatedAt (decode_row J r) = row_created_at r"
  by (simp_all add: decode_row_def scan_event_def)

lemma decode_row_scan:
  "decodes J r \<Longrightarrow>
   \<exists>p. decode_row J r = scan_event r p \<and> json_Unmarshal J (row_payload r) = Inr p"
  by (cases "json_Unmarshal J (row_payload r)") (simp_all add: decodes_def decode_row_def)

lemma batch_sorted:
  "sorted (map CreatedAt
     (map (decode_row J) (filter (decodes J) (rows_Next stop (select_pending tbl limit)))))"
proof -
  have "CreatedAt \<circ> decode_row J = row_created_at"
    by (rule ext) (simp add: decode_row_fields)
  moreover have "sorted (map row_created_at (rows_Next stop (select_pending tbl limit)))"
    using select_pending_sorted by (rule rows_Next_sorted)
  ultimately show ?thesis
    using sorted_filter [of row_created_at "rows_Next stop (select_pending tbl limit)" "decodes J"]
    by simp
qed

lemma batch_length:
  "0 \<le> limit \<Longrightarrow>
   length (map (decode_row J) (filter (decodes J) (rows_Next stop (select_pending tbl limit))))
     \<le> nat limit"
proof -
  assume "0 \<le> limit"
  then have "length (select_pending tbl limit) \<le> nat limit"
    by (rule select_pending_length)
  then have "length (rows_Next stop (select_pending tbl limit)) \<le> nat limit"
    by (rule le_trans [OF rows_Next_length])
  then have "length (filter (decodes J) (rows_Next stop (select_pending tbl limit))) \<le> nat limit"
    by (rule le_trans [OF length_filter_le])
  then show ?thesis by simp
qed

text \<open>
  The source does not read \<^verbatim>\<open>rows.Err()\<close>. When the result stream breaks after the first of
  two selected rows, the call returns the event of that row and no error.
\<close>

lemma broken_stream_returns_the_rows_read:
  "map ID (projr (GetPendingEvents go_json None (\<lambda>r. None) None (db w_retry) 100))
     = [''e1'', ''e4''] \<and>
   GetPendingEvents go_json None (\<lambda>r. None) (Some 1) (db w_retry) 100
     = Inr [decode_row go_json row1]"
  by (simp add: relay_defs codec_defs example_defs w_retry_def row4_def decode_row_def)

text \<open>
  C5, as amended. For a positive limit and every table, \<^verbatim>\<open>GetPendingEvents\<close> returns the
  error of \<^verbatim>\<open>QueryContext\<close> when that call fails, and the error of \<^verbatim>\<open>rows.Scan\<close> when a row
  that was read fails to scan, in both cases with no events; when the result arrives whole
  and every row scans it returns events. Whatever it returns has at most \<open>limit\<close> events, in
  ascending order of \<^verbatim>\<open>created_at\<close>, each scanned from a row of the table that is pending
  with fewer than 5 attempts and whose payload decoded. The order among events with the same
  \<^verbatim>\<open>created_at\<close> is not fixed by the query. Nothing is said here of what is returned when the
  result stream breaks during the iteration.
\<close>

theorem GetPendingEvents_batch:
  assumes "0 < limit"
  shows "(\<forall>e. query = Some e \<longrightarrow>
            GetPendingEvents J query scan stop tbl limit = Inl (GetPendingError e)) \<and>
         (query = None \<and> (\<exists>r\<in>set (rows_Next stop (select_pending tbl limit)). scan r \<noteq> None) \<longrightarrow>
            (\<exists>e. GetPendingEvents J query scan stop tbl limit = Inl (ScanEventError e))) \<and>
         (query = None \<and> stop = None \<and> (\<forall>r\<in>set (select_pending tbl limit). scan r = None) \<longrightarrow>
            (\<exists>events. GetPendingEvents J query scan stop tbl limit = Inr events)) \<and>
         (\<forall>events. GetPendingEvents J query scan stop tbl limit = Inr events \<longrightarrow>
            length events \<le> nat limit \<and>
            sorted (map CreatedAt events) \<and>
            (\<forall>event\<in>set events.
               Status event = StatusPending \<and> Attempts event < 5 \<and>
               (\<exists>r\<in>set tbl. \<exists>p. event = scan_event r p \<and>
                  json_Unmarshal J (row_payload r) = Inr p)))"
proof (intro conjI allI impI)
  fix e assume "query = Some e"
  then show "GetPendingEvents J query scan stop tbl limit = Inl (GetPendingError e)"
    by (simp add: GetPendingEvents_def)
next
  assume "query = None \<and> (\<exists>r\<in>set (rows_Next stop (select_pending tbl limit)). scan r \<noteq> None)"
  then show "\<exists>e. GetPendingEvents J query scan stop tbl limit = Inl (ScanEventError e)"
    using assms scan_rows_error [of "rows_Next stop (select_pending tbl limit)" scan J "[]"]
    by (simp add: GetPendingEvents_def)
next
  assume "query = None \<and> stop = None \<and> (\<forall>r\<in>set (select_pending tbl limit). scan r = None)"
  then show "\<exists>events. GetPendingEvents J query scan stop tbl limit = Inr events"
    using assms by (simp add: GetPendingEvents_def scan_rows_ok)
next
  fix events assume a: "GetPendingEvents J query scan stop tbl limit = Inr events"
  then have eq: "events =
      map (decode_row J) (filter (decodes J) (rows_Next stop (select_pending tbl limit)))"
    by (rule GetPendingEvents_Inr)
  show "length events \<le> nat limit"
    unfolding eq using assms by (intro batch_length) simp
  show "sorted (map CreatedAt events)"
    unfolding eq by (rule batch_sorted)
  show "\<forall>event\<in>set events.
          Status event = StatusPending \<and> Attempts event < 5 \<and>
          (\<exists>r\<in>set tbl. \<exists>p. event = scan_event r p \<and> json_Unmarshal J (row_payload r) = Inr p)"
  proof
    fix event assume "event \<in> set events"
    then obtain r where r0: "r \<in> set (rows_Next stop (select_pending tbl limit))"
      and dr: "decodes J r" and ev: "event = decode_row J r"
      unfolding eq by auto
    have r: "r \<in> set (select_pending tbl limit)"
      using r0 rows_Next_subset by blast
    have "r \<in> set tbl" using r select_pending_subset by blast
    moreover obtain p where "decode_row J r = scan_event r p"
        "json_Unmarshal J (row_payload r) = Inr p"
      using decode_row_scan [OF dr] by blast
    ultimately show "Status event = StatusPending \<and> Attempts event < 5 \<and>
        (\<exists>r\<in>set tbl. \<exists>p. event = scan_event r p \<and> json_Unmarshal J (row_payload r) = Inr p)"
      using select_pending_pending [OF r] ev by (auto simp: scan_event_def)
  qed
qed

theorem GetPendingEvents_batch_witness:
  "(0::int) < 10 \<and>
   map ID (projr (GetPendingEvents go_json None (\<lambda>r. None) None (db w2) 10)) = [''e1''] \<and>
   map Status (projr (GetPendingEvents go_json None (\<lambda>r. None) None (db w2) 10))
     = [StatusPending] \<and>
   GetPendingEvents go_json (Some ''timeout'') (\<lambda>r. None) None (db w2) 10
     = Inl (GetPendingError ''timeout'') \<and>
   GetPendingEvents go_json None (\<lambda>r. if row_id r = ''e1'' then Some ''bad column'' else None)
     None (db w2) 10 = Inl (ScanEventError ''bad column'')"
proof -
  let ?bad = "\<lambda>r. if row_id r = ''e1'' then Some ''bad column'' else None"
  have l: "(0::int) < 10" by simp
  have sp: "select_pending (db w2) 10 = [row_bad, row1]"
    by (simp add: select_pending_def example_defs StatusPending_def StatusPublished_def
        StatusFailed_def)
  have a: "\<exists>events. GetPendingEvents go_json None (\<lambda>r. None) None (db w2) 10 = Inr events"
    using GetPendingEvents_batch [OF l, of None go_json "\<lambda>r. None" None "db w2"] by simp
  have b: "map ID (projr (GetPendingEvents go_json None (\<lambda>r. None) None (db w2) 10)) = [''e1'']"
    by (simp add: relay_defs codec_defs example_defs)
  then obtain event where
    c: "GetPendingEvents go_json None (\<lambda>r. None) None (db w2) 10 = Inr [event]"
    using a by auto
  have "Status event = StatusPending"
    using GetPendingEvents_batch [OF l, of None go_json "\<lambda>r. None" None "db w2"] c by simp
  moreover have "GetPendingEvents go_json (Some ''timeout'') (\<lambda>r. None) None (db w2) 10
     = Inl (GetPendingError ''timeout'')"
    using GetPendingEvents_batch [OF l, of "Some ''timeout''" go_json "\<lambda>r. None" None "db w2"]
    by simp
  moreover have "\<exists>e. GetPendingEvents go_json None ?bad None (db w2) 10 = Inl (ScanEventError e)"
    using GetPendingEvents_batch [OF l, of None go_json ?bad None "db w2"]
    by (simp add: sp row1_def)
  moreover have "GetPendingEvents go_json None ?bad None (db w2) 10 =
      Inl (ScanEventError ''bad column'') \<or>
      \<not> (\<exists>e. GetPendingEvents go_json None ?bad None (db w2) 10 = Inl (ScanEventError e))"
    by (simp add: relay_defs codec_defs example_defs)
  ultimately show ?thesis using b c by auto
qed

text \<open>
  The claim as it was stated has ties broken by id. The query orders by \<^verbatim>\<open>created_at\<close>
  alone: three pending rows of one instant, met in the order b, a, c, come back in that
  order, which is ordered by id neither upwards nor downwards.
\<close>

theorem ties_not_broken_by_id:
  "map ID (projr (GetPendingEvents go_json None (\<lambda>r. None) None (db w_ties) 10)) = [''b'', ''a'', ''c''] \<and>
   map CreatedAt (projr (GetPendingEvents go_json None (\<lambda>r. None) None (db w_ties) 10)) = [7, 7, 7] \<and>
   \<not> sorted_wrt (\<lambda>x y. CreatedAt x < CreatedAt y \<or> (CreatedAt x = CreatedAt y \<and> ID x \<le> ID y))
        (projr (GetPendingEvents go_json None (\<lambda>r. None) None (db w_ties) 10)) \<and>
   \<not> sorted_wrt (\<lambda>x y. CreatedAt x < CreatedAt y \<or> (CreatedAt x = CreatedAt y \<and> ID x \<ge> ID y))
        (projr (GetPendingEvents go_json None (\<lambda>r. None) None (db w_ties) 10))"
  by (simp add: relay_defs codec_defs example_defs w_ties_def)

subsection \<open>A failed publish\<close>

lemma tick_batch_Inr:
  "GetPendingEvents J (query_error env) (scan_error env) (next_error env) (db w) 100 = Inr events \<Longrightarrow>
   tick_batch J env w = events"
  by (simp add: tick_batch_def)

lemma tick_processed:
  assumes d: "distinct (map row_id (db w))"
    and k: "k < length (tick_batch J env w)"
  shows "\<exists>r\<in>set (db w). tick_batch J env w ! k = decode_row J r \<and> decodes J r \<and>
           row_status r = StatusPending \<and> row_attempts r < 5 \<and>
           row_step J env k (decode_row J r) r \<in> set (db (snd (publishPendingEvents J env w)))"
proof -
  obtain r where r: "r \<in> set (select_pending (db w) 100)" "decodes J r"
    and ev: "tick_batch J env w ! k = decode_row J r"
    using tick_batch_nth [OF k] by blast
  have m: "r \<in> set (db w)" using r(1) select_pending_subset by blast
  have "row_after J env 0 (tick_batch J env w) r =
      row_step J env (0 + k) (tick_batch J env w ! k) r"
    using tick_batch_distinct [OF d] k ev by (intro row_after_nth) simp_all
  then have "row_step J env k (decode_row J r) r = row_after J env 0 (tick_batch J env w) r"
    using ev by simp
  then have "row_step J env k (decode_row J r) r \<in> row_after J env 0 (tick_batch J env w) ` set (db w)"
    using m by blast
  then have "row_step J env k (decode_row J r) r \<in> set (db (snd (publishPendingEvents J env w)))"
    by (simp add: db_tick)
  then show ?thesis
    using m r ev select_pending_pending [OF r(1)] by blast
qed

text \<open>
  C2. Let the table's ids be distinct and let a tick fetch the batch \<open>events\<close>. If publishing
  the event at position \<open>k\<close> fails with \<open>err\<close> and its update is executed, then the table
  had a pending row with the id and the attempts of that event, and after the tick the
  table holds that row with attempts one higher and \<^verbatim>\<open>last_error\<close> set to the message of
  \<open>err\<close>, its status unchanged (pending) exactly when \<open>Attempts + 1 < 5\<close>, and with status
  \<^verbatim>\<open>failed\<close> in addition otherwise.
\<close>

theorem publish_failure_is_recorded:
  assumes "distinct (map row_id (db w))"
    and "GetPendingEvents J (query_error env) (scan_error env) (next_error env) (db w) 100 = Inr events"
    and "k < length events"
    and "PublishEvent J (write_error env k) (Topic (events ! k)) (AggregateID (events ! k))
           (Payload (events ! k)) = Inl err"
    and "exec_error env k = None"
  shows "\<exists>r\<in>set (db w).
           row_id r = ID (events ! k) \<and> row_status r = StatusPending \<and>
           row_attempts r = Attempts (events ! k) \<and>
           (if Attempts (events ! k) + 1 < 5
            then r\<lparr>row_attempts := row_attempts r + 1, row_last_error := Some (Error err)\<rparr>
            else r\<lparr>row_status := StatusFailed, row_attempts := row_attempts r + 1,
                   row_last_error := Some (Error err)\<rparr>)
             \<in> set (db (snd (publishPendingEvents J env w)))"
proof -
  have b: "tick_batch J env w = events"
    using assms(2) by (rule tick_batch_Inr)
  then have "k < length (tick_batch J env w)"
    using assms(3) by simp
  from tick_processed [OF assms(1) this] obtain r where r: "r \<in> set (db w)"
    and ev: "events ! k = decode_row J r"
    and p: "row_status r = StatusPending"
    and s: "row_step J env k (decode_row J r) r \<in> set (db (snd (publishPendingEvents J env w)))"
    using b by auto
  have "row_step J env k (events ! k) r =
      (if Attempts (events ! k) + 1 < 5
       then r\<lparr>row_attempts := row_attempts r + 1, row_last_error := Some (Error err)\<rparr>
       else r\<lparr>row_status := StatusFailed, row_attempts := row_attempts r + 1,
              row_last_error := Some (Error err)\<rparr>)"
    using assms(4,5) by (simp add: row_step_def)
  then show ?thesis
    using r ev p s by (intro bexI [of _ r]) simp_all
qed

theorem publish_failure_is_recorded_witness:
  "distinct (map row_id (db w_retry)) \<and>
   map ID (projr (GetPendingEvents go_json (query_error broker_down) (scan_error broker_down)
      (next_error broker_down) (db w_retry) 100)) = [''e1'', ''e4''] \<and>
   map Attempts (projr (GetPendingEvents go_json (query_error broker_down) (scan_error broker_down)
      (next_error broker_down) (db w_retry) 100)) = [0, 4] \<and>
   exec_error broker_down 0 = None \<and> exec_error broker_down 1 = None \<and>
   row1\<lparr>row_attempts := 1,
         row_last_error := Some ''failed to publish event: connection refused''\<rparr>
     \<in> set (db (snd (publishPendingEvents go_json broker_down w_retry))) \<and>
   row4\<lparr>row_status := StatusFailed, row_attempts := 5,
         row_last_error := Some ''failed to publish event: connection refused''\<rparr>
     \<in> set (db (snd (publishPendingEvents go_json broker_down w_retry)))"
proof -
  let ?events = "projr (GetPendingEvents go_json (query_error broker_down)
      (scan_error broker_down) (next_error broker_down) (db w_retry) 100)"
  let ?w' = "snd (publishPendingEvents go_json broker_down w_retry)"
  let ?err = "PublishEventError ''connection refused''"
  have d: "distinct (map row_id (db w_retry))"
    by (simp add: example_defs w_retry_def row4_def)
  have ev: "?events = [decode_row go_json row1, decode_row go_json row4]"
    by (simp add: relay_defs codec_defs example_defs w_retry_def row4_def decode_row_def)
  have g: "GetPendingEvents go_json (query_error broker_down) (scan_error broker_down)
      (next_error broker_down) (db w_retry) 100 = Inr ?events"
    by (simp add: relay_defs codec_defs example_defs w_retry_def row4_def)
  have k0: "0 < length ?events" and k1: "1 < length ?events"
    unfolding ev by simp_all
  have p0: "PublishEvent go_json (write_error broker_down 0) (Topic (?events ! 0))
      (AggregateID (?events ! 0)) (Payload (?events ! 0)) = Inl ?err"
    unfolding ev
    by (simp add: decode_row_def PublishEvent_def scan_event_def codec_defs example_defs)
  have p1: "PublishEvent go_json (write_error broker_down 1) (Topic (?events ! 1))
      (AggregateID (?events ! 1)) (Payload (?events ! 1)) = Inl ?err"
    unfolding ev
    by (simp add: decode_row_def PublishEvent_def scan_event_def codec_defs example_defs
        row4_def)
  have x0: "exec_error broker_down 0 = None" and x1: "exec_error broker_down 1 = None"
    by (simp_all add: example_defs)
  have a0: "row1\<lparr>row_attempts := 1, row_last_error := Some (Error ?err)\<rparr> \<in> set (db ?w')"
    using publish_failure_is_recorded [OF d g k0 p0 x0] unfolding ev
    by (simp add: w_retry_def row4_def row1_def)
  have a1: "row4\<lparr>row_status := StatusFailed, row_attempts := 5,
      row_last_error := Some (Error ?err)\<rparr> \<in> set (db ?w')"
    using publish_failure_is_recorded [OF d g k1 p1 x1] unfolding ev
    by (simp add: w_retry_def row4_def row1_def)
  have i: "map ID ?events = [''e1'', ''e4''] \<and> map Attempts ?events = [0, 4]"
    unfolding ev by (simp add: row1_def row4_def)
  show ?thesis
    using d i x0 x1 a0 a1 by simp
qed

subsection \<open>Rows whose payload does not decode\<close>

lemma batch_excludes_undecodable:
  assumes d: "distinct (map row_id tbl)" and r: "r \<in> set tbl" and n: "\<not> decodes J r"
    and g: "GetPendingEvents J query scan stop tbl limit = Inr events"
  shows "row_id r \<notin> ID ` set events"
proof
  assume "row_id r \<in> ID ` set events"
  then obtain x where x0: "x \<in> set (rows_Next stop (select_pending tbl limit))"
    and dx: "decodes J x" and i: "row_id r = row_id x"
    unfolding GetPendingEvents_Inr [OF g] by auto
  have "x \<in> set (select_pending tbl limit)" using x0 rows_Next_subset by blast
  then have "x \<in> set tbl" using select_pending_subset by blast
  then have "r = x" using d r i by (blast intro: same_id_same_row)
  then show False using n dx by simp
qed

lemma GetPendingEvents_ok:
  "0 \<le> limit \<Longrightarrow> \<forall>x\<in>set (rows_Next stop (select_pending tbl limit)). scan x = None \<Longrightarrow>
   GetPendingEvents J None scan stop tbl limit =
     Inr (map (decode_row J) (filter (decodes J) (rows_Next stop (select_pending tbl limit))))"
  by (simp add: GetPendingEvents_def scan_rows_ok)

lemma decodable_row_processed:
  assumes d: "distinct (map row_id (db w))"
    and x: "x \<in> set (rows_Next (next_error env) (select_pending (db w) 100))" "decodes J x"
    and q: "query_error env = None"
      "\<forall>y\<in>set (rows_Next (next_error env) (select_pending (db w) 100)). scan_error env y = None"
  shows "\<exists>k. row_step J env k (decode_row J x) x \<in> set (db (snd (publishPendingEvents J env w)))"
proof -
  let ?rows = "filter (decodes J) (rows_Next (next_error env) (select_pending (db w) 100))"
  have b: "tick_batch J env w = map (decode_row J) ?rows"
    using q by (simp add: tick_batch_def GetPendingEvents_ok)
  have "x \<in> set ?rows" using x by simp
  then obtain k where k: "k < length ?rows" "?rows ! k = x"
    unfolding in_set_conv_nth by blast
  then have kb: "k < length (tick_batch J env w)" and e: "tick_batch J env w ! k = decode_row J x"
    by (simp_all add: b)
  from tick_processed [OF d kb] obtain r where r: "r \<in> set (db w)"
    and er: "tick_batch J env w ! k = decode_row J r"
    and s: "row_step J env k (decode_row J r) r \<in> set (db (snd (publishPendingEvents J env w)))"
    by blast
  have "row_id r = row_id x"
    using e er decode_row_ID [of J r] decode_row_ID [of J x] by simp
  moreover have "x \<in> set (select_pending (db w) 100)"
    using x(1) rows_Next_subset by blast
  then have "x \<in> set (db w)" using select_pending_subset by blast
  ultimately have "r = x" using d r by (blast intro: same_id_same_row)
  then show ?thesis using s by blast
qed

text \<open>
  C6. Let the table's ids be distinct and let \<open>r\<close> be a pending row whose payload
  \<^verbatim>\<open>json.Unmarshal\<close> refuses. Then no batch \<^verbatim>\<open>GetPendingEvents\<close> returns holds an event with
  the id of \<open>r\<close>; through every sequence of ticks and committed enqueues \<open>r\<close> stays in the
  table as it is (pending, with its attempts and \<^verbatim>\<open>last_error\<close>, never failed); when the
  query and the scans succeed the batch is made of the decodable rows among the rows read,
  in their order; and in a tick each of those rows is worked on by one iteration of the
  loop (\<open>row_step\<close> is what the iteration does to it). The rows read are all the selected
  rows when the result arrives whole (\<open>rows_Next None\<close>).
\<close>

theorem undecodable_row_is_passed_over:
  assumes "distinct (map row_id (db w))" and "r \<in> set (db w)"
    and "row_status r = StatusPending" and "\<not> decodes J r"
  shows "(\<forall>query scan stop limit events.
            GetPendingEvents J query scan stop (db w) limit = Inr events \<longrightarrow>
            row_id r \<notin> ID ` set events) \<and>
         r \<in> set (db (run J acts w)) \<and>
         (\<forall>scan stop limit.
            0 \<le> limit \<and> (\<forall>x\<in>set (rows_Next stop (select_pending (db w) limit)). scan x = None) \<longrightarrow>
            GetPendingEvents J None scan stop (db w) limit =
              Inr (map (decode_row J)
                     (filter (decodes J) (rows_Next stop (select_pending (db w) limit))))) \<and>
         (\<forall>env. \<forall>x\<in>set (rows_Next (next_error env) (select_pending (db w) 100)).
            decodes J x \<and> query_error env = None \<and>
            (\<forall>y\<in>set (rows_Next (next_error env) (select_pending (db w) 100)).
               scan_error env y = None) \<longrightarrow>
            (\<exists>k. row_step J env k (decode_row J x) x
                    \<in> set (db (snd (publishPendingEvents J env w)))))"
proof (intro conjI allI impI ballI)
  fix query :: "string option" and scan :: "outbox_row \<Rightarrow> string option"
    and stop :: "nat option" and limit :: int and events :: "'a OutboxEvent list"
  assume "GetPendingEvents J query scan stop (db w) limit = Inr events"
  then show "row_id r \<notin> ID ` set events"
    using assms(1,2,4) by (intro batch_excludes_undecodable)
next
  show "r \<in> set (db (run J acts w))"
    using assms(1,2,4) by (simp add: run_unselected)
next
  fix scan :: "outbox_row \<Rightarrow> string option" and stop :: "nat option" and limit :: int
  assume "0 \<le> limit \<and> (\<forall>x\<in>set (rows_Next stop (select_pending (db w) limit)). scan x = None)"
  then show "GetPendingEvents J None scan stop (db w) limit =
      Inr (map (decode_row J) (filter (decodes J) (rows_Next stop (select_pending (db w) limit))))"
    by (simp add: GetPendingEvents_ok)
next
  fix env :: environment and x
  assume "x \<in> set (rows_Next (next_error env) (select_pending (db w) 100))"
    and "decodes J x \<and> query_error env = None \<and>
      (\<forall>y\<in>set (rows_Next (next_error env) (select_pending (db w) 100)). scan_error env y = None)"
  then show "\<exists>k. row_step J env k (decode_row J x) x
      \<in> set (db (snd (publishPendingEvents J env w)))"
    using assms(1) by (intro decodable_row_processed) simp_all
qed

theorem undecodable_row_is_passed_over_witness:
  "distinct (map row_id (db w2)) \<and> row_bad \<in> set (db w2) \<and>
   row_status row_bad = StatusPending \<and> \<not> decodes go_json row_bad \<and>
   map ID (projr (GetPendingEvents go_json None (\<lambda>r. None) None (db w2) 100)) = [''e1''] \<and>
   row_bad \<in> set (db (run go_json [Tick healthy, Tick broker_down, Tick healthy] w2)) \<and>
   db (snd (publishPendingEvents go_json healthy w2)) =
     [row_published, row_failed, row_bad,
      row1\<lparr>row_status := StatusPublished, row_published_at := Some 20\<rparr>]"
proof -
  have d: "distinct (map row_id (db w2))"
    by (simp add: example_defs)
  have m: "row_bad \<in> set (db w2)"
    by (simp add: example_defs)
  have p: "row_status row_bad = StatusPending"
    by (simp add: example_defs)
  have n: "\<not> decodes go_json row_bad"
    by (simp add: decodes_def codec_defs example_defs)
  note T = undecodable_row_is_passed_over [OF d m p n,
      of "[Tick healthy, Tick broker_down, Tick healthy]"]
  have a: "row_bad \<in> set (db (run go_json [Tick healthy, Tick broker_down, Tick healthy] w2))"
    using T by blast
  have b: "map ID (projr (GetPendingEvents go_json None (\<lambda>r. None) None (db w2) 100)) = [''e1'']"
    by (simp add: relay_defs codec_defs example_defs)
  have c: "db (snd (publishPendingEvents go_json healthy w2)) =
     [row_published, row_failed, row_bad,
      row1\<lparr>row_status := StatusPublished, row_published_at := Some 20\<rparr>]"
    by (simp add: relay_defs codec_defs example_defs)
  show ?thesis
    using d m p n a b c by simp
qed

subsection \<open>A window of rows that do not decode\<close>

lemma empty_window_read:
  assumes "\<forall>r\<in>set rows. \<not> decodes J r"
  shows "filter (decodes J) (rows_Next stop rows) = []"
proof -
  have "\<forall>r\<in>set (rows_Next stop rows). \<not> decodes J r"
    using assms rows_Next_subset [of stop rows] by blast
  then show ?thesis by (simp add: filter_empty_conv)
qed

lemma empty_window_batch:
  "0 \<le> limit \<Longrightarrow> \<forall>r\<in>set (select_pending tbl limit). \<not> decodes J r \<Longrightarrow>
   GetPendingEvents J None (\<lambda>r. None) stop tbl limit = Inr []"
  by (simp add: GetPendingEvents_ok empty_window_read)

lemma empty_window_any:
  assumes "\<forall>r\<in>set (select_pending tbl limit). \<not> decodes J r"
    and "GetPendingEvents J query scan stop tbl limit = Inr events"
  shows "events = []"
  using GetPendingEvents_Inr [OF assms(2)] empty_window_read [OF assms(1)] by simp

lemma empty_window_tick:
  assumes "\<forall>r\<in>set (select_pending (db w) 100). \<not> decodes J r"
  shows "snd (publishPendingEvents J env w) = w"
proof (cases "GetPendingEvents J (query_error env) (scan_error env) (next_error env) (db w) 100")
  case (Inl e)
  then show ?thesis by (simp add: publishPendingEvents_def)
next
  case (Inr events)
  then have "events = []" using assms by (intro empty_window_any)
  with Inr show ?thesis by (simp add: publishPendingEvents_def)
qed

lemma empty_window_Start:
  "\<forall>r\<in>set (select_pending (db w) 100). \<not> decodes J r \<Longrightarrow> Start J ticks w = w"
  by (induction ticks) (simp_all add: empty_window_tick)

text \<open>
  C10. The limit is applied by the query, before any payload is decoded. When every row the
  query selects for a limit has a payload that does not decode, \<^verbatim>\<open>GetPendingEvents\<close> returns
  the empty batch (whether or not the result stream breaks), whatever pending rows lie
  beyond the limit. When this holds for the
  publisher's limit of 100, no number of ticks changes the table or publishes anything, so
  every later batch is empty as well and the rows beyond are never returned. The example is
  a table of a hundred such rows followed by a pending row that decodes.
\<close>

theorem undecodable_window_starves_the_rest:
  "(0 \<le> limit \<and> (\<forall>r\<in>set (select_pending tbl limit). \<not> decodes J r) \<longrightarrow>
      GetPendingEvents J None (\<lambda>r. None) stop tbl limit = Inr []) \<and>
   ((\<forall>r\<in>set (select_pending (db w) 100). \<not> decodes J r) \<longrightarrow>
      Start J ticks w = w \<and>
      (\<forall>query scan events.
         GetPendingEvents J query scan stop (db (Start J ticks w)) 100 = Inr events \<longrightarrow> events = []))"
proof (intro conjI impI allI)
  assume "0 \<le> limit \<and> (\<forall>r\<in>set (select_pending tbl limit). \<not> decodes J r)"
  then show "GetPendingEvents J None (\<lambda>r. None) stop tbl limit = Inr []"
    by (simp add: empty_window_batch)
next
  assume "\<forall>r\<in>set (select_pending (db w) 100). \<not> decodes J r"
  then show "Start J ticks w = w" by (rule empty_window_Start)
next
  fix query :: "string option" and scan :: "outbox_row \<Rightarrow> string option"
    and events :: "'a OutboxEvent list"
  assume a: "\<forall>r\<in>set (select_pending (db w) 100). \<not> decodes J r"
    and g: "GetPendingEvents J query scan stop (db (Start J ticks w)) 100 = Inr events"
  have "Start J ticks w = w" using a by (rule empty_window_Start)
  then show "events = []" using a g by (simp add: empty_window_any)
qed

lemma bad_row_fields:
  "row_status (bad_row n) = StatusPending" "row_attempts (bad_row n) = 0"
  "row_created_at (bad_row n) = int n" "\<not> decodes go_json (bad_row n)"
  by (simp_all add: bad_row_def row_bad_def decodes_def codec_defs)

lemma w100_window: "select_pending (db w100) 100 = map bad_row [0..<100]"
proof -
  let ?good = "row1\<lparr>row_created_at := 100\<rparr>"
  let ?tbl = "map bad_row [0..<100] @ [?good]"
  have f: "filter (\<lambda>r. row_status r = StatusPending \<and> row_attempts r < 5) ?tbl = ?tbl"
    by (rule filter_True) (auto simp: bad_row_fields row1_def)
  have c: "row_created_at \<circ> bad_row = int"
    by (rule ext) (simp add: bad_row_fields)
  have "sorted (map int [0..<100] @ [100])"
    by (simp add: sorted_append sorted_map sorted_wrt_map)
  then have "sorted (map row_created_at ?tbl)"
    by (simp add: c)
  then have sk: "sort_key row_created_at ?tbl = ?tbl" by (rule sort_key_id_if_sorted)
  have dbw: "db w100 = ?tbl" by (simp add: w100_def)
  have "select_pending (db w100) 100 = take (nat 100) ?tbl"
    by (simp only: select_pending_def dbw f sk)
  then show ?thesis by simp
qed

theorem undecodable_window_starves_the_rest_witness:
  "(0::int) \<le> 100 \<and> select_pending (db w100) 100 = map bad_row [0..<100] \<and>
   list_all (\<lambda>r. \<not> decodes go_json r) (select_pending (db w100) 100) \<and>
   row1\<lparr>row_created_at := 100\<rparr> \<in> set (db w100) \<and>
   decodes go_json (row1\<lparr>row_created_at := 100\<rparr>) \<and>
   row_status (row1\<lparr>row_created_at := 100\<rparr>) = StatusPending \<and>
   row_attempts (row1\<lparr>row_created_at := 100\<rparr>) = 0 \<and>
   GetPendingEvents go_json None (\<lambda>r. None) None (db w100) 100 = Inr [] \<and>
   Start go_json [healthy, broker_down, healthy] w100 = w100"
proof -
  have h: "\<forall>r\<in>set (select_pending (db w100) 100). \<not> decodes go_json r"
    by (auto simp: w100_window bad_row_fields)
  then have l: "list_all (\<lambda>r. \<not> decodes go_json r) (select_pending (db w100) 100)"
    by (simp add: list_all_iff)
  have g: "decodes go_json (row1\<lparr>row_created_at := 100\<rparr>) \<and>
      row_status (row1\<lparr>row_created_at := 100\<rparr>) = StatusPending \<and>
      row_attempts (row1\<lparr>row_created_at := 100\<rparr>) = 0 \<and>
      row1\<lparr>row_created_at := 100\<rparr> \<in> set (db w100)"
    by (simp add: decodes_def codec_defs row1_def w100_def)
  note T = undecodable_window_starves_the_rest
    [where limit = 100 and tbl = "db w100" and J = go_json and stop = None and w = w100
       and ticks = "[healthy, broker_down, healthy]"]
  have "GetPendingEvents go_json None (\<lambda>r. None) None (db w100) 100 = Inr []"
    using T h by simp
  moreover have "Start go_json [healthy, broker_down, healthy] w100 = w100"
    using T h by blast
  ultimately show ?thesis
    using l g w100_window by simp
qed

subsection \<open>The bytes on the wire\<close>

lemma PublishEvent_Inr:
  "PublishEvent J write topic key p = Inr m \<Longrightarrow>
   Message_Topic m = topic \<and> Message_Key m = key \<and> json_Marshal J p = Inr (Message_Value m)"
  unfolding PublishEvent_def
  by (cases "json_Marshal J p"; cases "write") (auto simp: Let_def)

lemma broker_publish_event:
  "broker (publish_event J env i e w) =
   broker w @ (case PublishEvent J (write_error env i) (Topic e) (AggregateID e) (Payload e) of
                 Inl err \<Rightarrow> [] | Inr msg \<Rightarrow> [msg])"
  by (cases "PublishEvent J (write_error env i) (Topic e) (AggregateID e) (Payload e)")
    (simp_all add: publish_event_def)

lemma broker_publish_loop:
  "\<exists>new. broker (publish_loop J env i es w) = broker w @ new \<and>
     (\<forall>m\<in>set new. \<exists>e\<in>set es. \<exists>write.
        PublishEvent J write (Topic e) (AggregateID e) (Payload e) = Inr m)"
proof (induction es arbitrary: i w)
  case Nil
  show ?case by simp
next
  case (Cons e es)
  let ?w = "publish_event J env i e w"
  let ?one = "case PublishEvent J (write_error env i) (Topic e) (AggregateID e) (Payload e) of
                 Inl err \<Rightarrow> [] | Inr msg \<Rightarrow> [msg]"
  obtain new where n: "broker (publish_loop J env (Suc i) es ?w) = broker ?w @ new"
    and p: "\<forall>m\<in>set new. \<exists>e\<in>set es. \<exists>write.
        PublishEvent J write (Topic e) (AggregateID e) (Payload e) = Inr m"
    using Cons.IH [of "Suc i" ?w] by blast
  have "broker (publish_loop J env i (e # es) w) = broker w @ (?one @ new)"
    using n by (simp add: broker_publish_event)
  moreover have "\<forall>m\<in>set (?one @ new). \<exists>e'\<in>set (e # es). \<exists>write.
        PublishEvent J write (Topic e') (AggregateID e') (Payload e') = Inr m"
    using p by (cases "PublishEvent J (write_error env i) (Topic e) (AggregateID e) (Payload e)")
      auto
  ultimately show ?case by blast
qed

text \<open>
  C1, as amended. The messages a tick adds to the broker each come from a row of the table
  that was pending with fewer than 5 attempts: the topic is the row's topic, the key its
  aggregate id, and the value is \<^verbatim>\<open>json.Marshal\<close> of what \<^verbatim>\<open>json.Unmarshal\<close> decoded from the
  row's payload. The value is the encoding of the payload alone (no envelope), and it is
  encoded again, not copied.
\<close>

theorem wire_value_is_the_reencoded_payload:
  "\<exists>new. broker (snd (publishPendingEvents J env w)) = broker w @ new \<and>
     (\<forall>m\<in>set new. \<exists>r\<in>set (db w).
        row_status r = StatusPending \<and> row_attempts r < 5 \<and>
        Message_Topic m = row_topic r \<and> Message_Key m = row_aggregate_id r \<and>
        (\<exists>p. json_Unmarshal J (row_payload r) = Inr p \<and>
             json_Marshal J p = Inr (Message_Value m)))"
proof (cases "GetPendingEvents J (query_error env) (scan_error env) (next_error env) (db w) 100")
  case (Inl e)
  then have "broker (snd (publishPendingEvents J env w)) = broker w @ []"
    by (simp add: publishPendingEvents_def)
  then show ?thesis by (intro exI [of _ "[]"]) simp
next
  case (Inr events)
  have ev: "events = map (decode_row J)
      (filter (decodes J) (rows_Next (next_error env) (select_pending (db w) 100)))"
    using Inr by (rule GetPendingEvents_Inr)
  have "snd (publishPendingEvents J env w) = publish_loop J env 0 events w"
    using Inr by (cases events) (simp_all add: publishPendingEvents_def)
  then obtain new where n: "broker (snd (publishPendingEvents J env w)) = broker w @ new"
    and p: "\<forall>m\<in>set new. \<exists>e\<in>set events. \<exists>write.
        PublishEvent J write (Topic e) (AggregateID e) (Payload e) = Inr m"
    using broker_publish_loop [of J env 0 events w] by auto
  have "\<forall>m\<in>set new. \<exists>r\<in>set (db w).
        row_status r = StatusPending \<and> row_attempts r < 5 \<and>
        Message_Topic m = row_topic r \<and> Message_Key m = row_aggregate_id r \<and>
        (\<exists>p. json_Unmarshal J (row_payload r) = Inr p \<and>
             json_Marshal J p = Inr (Message_Value m))"
  proof
    fix m assume "m \<in> set new"
    then obtain e wr where e: "e \<in> set events"
      and pe: "PublishEvent J wr (Topic e) (AggregateID e) (Payload e) = Inr m"
      using p by blast
    from e obtain r where "r \<in> set (rows_Next (next_error env) (select_pending (db w) 100))"
      and "decodes J r" and er: "e = decode_row J r"
      unfolding ev by auto
    then have r: "r \<in> set (select_pending (db w) 100)" "decodes J r"
      using rows_Next_subset by blast+
    obtain q where q: "decode_row J r = scan_event r q" "json_Unmarshal J (row_payload r) = Inr q"
      using decode_row_scan [OF r(2)] by blast
    have f: "Topic e = row_topic r" "AggregateID e = row_aggregate_id r" "Payload e = q"
      using er q(1) by (simp_all add: scan_event_def)
    have "r \<in> set (db w)" using r(1) select_pending_subset by blast
    then show "\<exists>r\<in>set (db w).
        row_status r = StatusPending \<and> row_attempts r < 5 \<and>
        Message_Topic m = row_topic r \<and> Message_Key m = row_aggregate_id r \<and>
        (\<exists>p. json_Unmarshal J (row_payload r) = Inr p \<and>
             json_Marshal J p = Inr (Message_Value m))"
      using PublishEvent_Inr [OF pe] f q(2) select_pending_pending [OF r(1)]
      by (intro bexI [of _ r]) auto
  qed
  with n show ?thesis by blast
qed

theorem wire_value_is_the_reencoded_payload_witness:
  \<open>broker w1 = [] \<and> map row_payload (db w1) = [''{"x": 1}''] \<and>
   json_Unmarshal go_json ''{"x": 1}'' = Inr (Map [(''x'', JNumber 1)]) \<and>
   json_Marshal go_json (Map [(''x'', JNumber 1)]) = Inr ''{"x":1}'' \<and>
   broker (snd (publishPendingEvents go_json healthy w1)) =
     [\<lparr>Message_Topic = ''wallet.created'', Message_Key = ''w-1'', Message_Value = ''{"x":1}''\<rparr>]\<close>
proof -
  have b: \<open>broker (snd (publishPendingEvents go_json healthy w1)) =
     [\<lparr>Message_Topic = ''wallet.created'', Message_Key = ''w-1'', Message_Value = ''{"x":1}''\<rparr>]\<close>
    by (simp add: relay_defs codec_defs example_defs)
  have u: \<open>json_Unmarshal go_json ''{"x": 1}'' = Inr (Map [(''x'', JNumber 1)])\<close>
    by (simp add: codec_defs)
  have k: \<open>json_Marshal go_json (Map [(''x'', JNumber 1)]) = Inr ''{"x":1}''\<close>
    by (simp add: codec_defs)
  have "\<exists>p. json_Unmarshal go_json (row_payload row1) = Inr p \<and>
      json_Marshal go_json p = Inr (Message_Value (hd (broker (snd (publishPendingEvents go_json healthy w1)))))"
    using wire_value_is_the_reencoded_payload [of go_json healthy w1] b
    by (simp add: w1_def)
  then show ?thesis
    using b u k by (simp add: w1_def row1_def)
qed

text \<open>
  The claim as it was stated has the value equal the stored bytes. The stored bytes
  \<^verbatim>\<open>{"x": 1}\<close> (the form in which a \<^verbatim>\<open>JSONB\<close> column prints the payload of scenario 1) go
  out as \<^verbatim>\<open>{"x":1}\<close>.
\<close>

theorem wire_bytes_differ_from_stored_bytes:
  \<open>map row_payload (db w1) = [''{"x": 1}''] \<and>
   map Message_Value (broker (snd (publishPendingEvents go_json healthy w1))) = [''{"x":1}''] \<and>
   map Message_Value (broker (snd (publishPendingEvents go_json healthy w1)))
     \<noteq> map row_payload (db w1)\<close>
  by (simp add: relay_defs codec_defs example_defs)

end
